theory Spec2Isabelle
  imports Complex_Main "HOL-Library.Word" "HOL-Library.Sublist"
begin

section \<open>Partial plans of the plan-space planner (plans.cc)\<close>

text \<open>
  The development embeds the plan record of \<^verbatim>\<open>plans.cc\<close> and the refinement
  operators defined there.  A \<^verbatim>\<open>Chain<T>\<close> (a persistent cons list, \<^verbatim>\<open>NULL\<close>
  when empty) is a HOL list whose head is the head of the chain.  A \<^verbatim>\<open>size_t\<close>
  counter is a 64-bit word, so that \<^verbatim>\<open>n - 1\<close> and \<^verbatim>\<open>n++\<close> wrap as they do in the
  program.  Step identifiers and the step count stay far below
  \<^verbatim>\<open>GOAL_ID\<close> and are natural numbers.  Floating point ranks are real numbers:
  the comparison of plans only looks at the sign of a difference of two ranks,
  which for finite floats is the sign of the difference of the reals.
\<close>

subsection \<open>Errors\<close>

text \<open>
  \<^verbatim>\<open>std::logic_error\<close> is thrown for an unknown kind of goal or flaw.  Calling a
  member of a \<^verbatim>\<open>NULL\<close> chain, reading a vector out of range, taking an
  object for a variable and using an object that has been deleted are
  undefined in the program; the model reports them as errors of their own.
\<close>

datatype error = LogicError string | NullPointer | OutOfRange | NotAVariable | DeletedObject

subsection \<open>Terms, literals and formulas\<close>

type_synonym size_t = "64 word"
type_synonym predicate = nat
type_synonym variable = nat
type_synonym object = nat

datatype pterm = Obj object | Var variable

record atom =
  predicate_of :: predicate
  terms_of :: "pterm list"

datatype literal_t = Atom atom | Negation atom

fun literal_atom :: "literal_t \<Rightarrow> atom" where
  "literal_atom (Atom a) = a"
| "literal_atom (Negation a) = a"

definition literal_predicate :: "literal_t \<Rightarrow> predicate" where
  "literal_predicate l = predicate_of (literal_atom l)"

datatype formula_time = AT_START | OVER_ALL | AT_END

text \<open>
  Modelled from the spec: \<^verbatim>\<open>formulas.h\<close> is not part of the sources at hand.  The
  formula shapes are the ones goal admission distinguishes (section 4.1 of the
  specification): the two constants, (timed) literals, conjunctions,
  disjunctions, binding literals, and quantified formulas.  A binding literal
  carries the two step ids it was built with; \<^verbatim>\<open>step_id1(def)\<close> answers the
  default when the stored id is 0.  A universally quantified formula carries
  its universal base, the expansion over the finite object domain of the
  problem that \<^verbatim>\<open>universal_base\<close> returns.
\<close>

datatype formula =
    Tautology
  | Contradiction
  | Lit literal_t
  | TimedLiteral literal_t formula_time
  | Conjunction "formula list"
  | Disjunction "formula list"
  | Equality variable nat pterm nat
  | Inequality variable nat pterm nat
  | Exists "variable list" formula
  | Forall "variable list" formula formula

fun tautology :: "formula \<Rightarrow> bool" where
  "tautology Tautology = True"
| "tautology _ = False"

fun contradiction :: "formula \<Rightarrow> bool" where
  "contradiction Contradiction = True"
| "contradiction _ = False"

fun universal_base :: "formula \<Rightarrow> formula" where
  "universal_base (Forall vs body base) = base"
| "universal_base f = f"

fun bl_step_id :: "nat \<Rightarrow> nat \<Rightarrow> nat" where
  "bl_step_id stored def_id = (if stored \<noteq> 0 then stored else def_id)"

record binding_t =
  b_var :: variable
  b_var_id :: nat
  b_term :: pterm
  b_term_id :: nat
  b_equality :: bool

definition Binding :: "variable \<Rightarrow> nat \<Rightarrow> pterm \<Rightarrow> nat \<Rightarrow> bool \<Rightarrow> binding_t" where
  "Binding v vid t tid eq =
     \<lparr>b_var = v, b_var_id = vid, b_term = t, b_term_id = tid, b_equality = eq\<rparr>"

subsection \<open>Actions, steps, links and flaws\<close>

datatype step_time = StepTime_AT_START | StepTime_AT_END

datatype effect_time = Effect_AT_START | Effect_AT_END

record effect =
  e_literal :: literal_t
  e_when :: effect_time
  e_condition :: formula
  e_link_condition :: formula
  e_parameters :: "variable list"

record action =
  a_name :: string
  a_schema :: bool
  a_durative :: bool
  a_composite :: bool
  a_parameters :: "variable list"
  a_condition :: formula
  a_effects :: "effect list"

record step =
  s_id :: nat
  s_action :: action

definition Step :: "nat \<Rightarrow> action \<Rightarrow> step" where
  "Step i a = \<lparr>s_id = i, s_action = a\<rparr>"

text \<open>
  An open condition is built by one of three constructors: from a literal and
  its time, from a disjunction, and from an inequality.
\<close>

datatype open_condition =
    OpenCondition nat literal_t formula_time
  | OpenConditionDisj nat "formula list"
  | OpenConditionNeq nat variable nat pterm nat

fun oc_step_id :: "open_condition \<Rightarrow> nat" where
  "oc_step_id (OpenCondition sid l w) = sid"
| "oc_step_id (OpenConditionDisj sid ds) = sid"
| "oc_step_id (OpenConditionNeq sid v i1 t i2) = sid"

fun oc_when :: "open_condition \<Rightarrow> formula_time" where
  "oc_when (OpenCondition sid l w) = w"
| "oc_when _ = AT_START"

fun oc_literal :: "open_condition \<Rightarrow> literal_t option" where
  "oc_literal (OpenCondition sid l w) = Some l"
| "oc_literal _ = None"

record link =
  l_from_id :: nat
  l_effect_time :: step_time
  l_to_id :: nat
  l_condition :: "literal_t option"
  l_condition_time :: formula_time

text \<open>\<^verbatim>\<open>Link(from_id, effect_time, open_cond)\<close>: the link that closes an open condition.\<close>

definition Link :: "nat \<Rightarrow> step_time \<Rightarrow> open_condition \<Rightarrow> link" where
  "Link from et oc =
     \<lparr>l_from_id = from, l_effect_time = et, l_to_id = oc_step_id oc,
      l_condition = oc_literal oc, l_condition_time = oc_when oc\<rparr>"

record unsafe =
  u_link :: link
  u_step_id :: nat
  u_effect :: effect

definition Unsafe :: "link \<Rightarrow> nat \<Rightarrow> effect \<Rightarrow> unsafe" where
  "Unsafe l sid e = \<lparr>u_link = l, u_step_id = sid, u_effect = e\<rparr>"

text \<open>
  The default constructed \<^verbatim>\<open>MutexThreat()\<close> is the place holder: its first step
  id is 0 and it has no effects.
\<close>

record mutex_threat =
  m_step_id1 :: nat
  m_effect1 :: "effect option"
  m_step_id2 :: nat
  m_effect2 :: "effect option"

definition MutexThreat0 :: mutex_threat where
  "MutexThreat0 = \<lparr>m_step_id1 = 0, m_effect1 = None, m_step_id2 = 0, m_effect2 = None\<rparr>"

definition MutexThreat :: "nat \<Rightarrow> effect \<Rightarrow> nat \<Rightarrow> effect \<Rightarrow> mutex_threat" where
  "MutexThreat i1 e1 i2 e2 =
     \<lparr>m_step_id1 = i1, m_effect1 = Some e1, m_step_id2 = i2, m_effect2 = Some e2\<rparr>"

datatype unexpanded_composite_step = UnexpandedCompositeStep step

fun ucs_step_id :: "unexpanded_composite_step \<Rightarrow> nat" where
  "ucs_step_id (UnexpandedCompositeStep s) = s_id s"

fun ucs_step_action :: "unexpanded_composite_step \<Rightarrow> action" where
  "ucs_step_action (UnexpandedCompositeStep s) = s_action s"

record ordering =
  before_id :: nat
  before_time :: step_time
  after_id :: nat
  after_time :: step_time

definition Ordering :: "nat \<Rightarrow> step_time \<Rightarrow> nat \<Rightarrow> step_time \<Rightarrow> ordering" where
  "Ordering b t1 a t2 = \<lparr>before_id = b, before_time = t1, after_id = a, after_time = t2\<rparr>"

subsection \<open>Decompositions\<close>

record decomposition =
  d_name :: string
  d_pseudo_steps :: "step list"
  d_binding_list :: "binding_t list"
  d_ordering_list :: "ordering list"
  d_link_list :: "link list"
  d_dummy_initial_step_id :: nat
  d_dummy_final_step_id :: nat

record decomposition_frame =
  f_decomposition :: decomposition
  f_steps :: "step list"
  f_binding_list :: "binding_t list"
  f_ordering_list :: "ordering list"
  f_link_list :: "link list"
  f_dummy_initial_step_id :: nat
  f_dummy_final_step_id :: nat

record decomposition_link =
  dl_composite_id :: nat
  dl_decomposition_step :: decomposition_frame

definition DecompositionLink :: "nat \<Rightarrow> decomposition_frame \<Rightarrow> decomposition_link" where
  "DecompositionLink cid fr = \<lparr>dl_composite_id = cid, dl_decomposition_step = fr\<rparr>"

subsection \<open>Rank values\<close>

text \<open>
  A rank is a C++ \<^verbatim>\<open>float\<close>: a finite value, an infinity or a NaN.  A finite
  value is modelled by the real number it stands for.  \<^verbatim>\<open>float_minus\<close> is the
  subtraction: of two finite values it gives the exact difference, where the
  program computes the rounded one; the rounded difference, also when it
  overflows to an infinity, has the same sign, and it is zero in the same
  case, that of equal values, and the comparison of plans looks at nothing
  else.  The difference of an infinity and itself is a NaN, and so is every
  difference with a NaN.
\<close>

datatype cfloat = Finite real | PlusInfinity | MinusInfinity | NaN

fun float_minus :: "cfloat \<Rightarrow> cfloat \<Rightarrow> cfloat" where
  "float_minus NaN y = NaN"
| "float_minus x NaN = NaN"
| "float_minus (Finite a) (Finite b) = Finite (a - b)"
| "float_minus (Finite a) PlusInfinity = MinusInfinity"
| "float_minus (Finite a) MinusInfinity = PlusInfinity"
| "float_minus PlusInfinity PlusInfinity = NaN"
| "float_minus PlusInfinity y = PlusInfinity"
| "float_minus MinusInfinity MinusInfinity = NaN"
| "float_minus MinusInfinity y = MinusInfinity"

text \<open>The tests \<^verbatim>\<open>diff == 0.0\<close> and \<^verbatim>\<open>diff > 0.0\<close>; both are false of a NaN.\<close>

definition float_is_zero :: "cfloat \<Rightarrow> bool" where
  "float_is_zero d \<longleftrightarrow> d = Finite 0"

definition float_positive :: "cfloat \<Rightarrow> bool" where
  "float_positive d \<longleftrightarrow> (case d of Finite r \<Rightarrow> r > 0 | PlusInfinity \<Rightarrow> True | _ \<Rightarrow> False)"

subsection \<open>The plan record\<close>

text \<open>
  The fields of \<^verbatim>\<open>struct Plan\<close>.  The orderings and the bindings are opaque
  collaborators (\<^verbatim>\<open>orderings.h\<close>, \<^verbatim>\<open>bindings.h\<close>), hence type parameters.
  \<^verbatim>\<open>rank_\<close> is the lazily computed rank (empty until \<^verbatim>\<open>primary_rank\<close> is first
  called) and \<^verbatim>\<open>serial_no\<close> the serial number, which the constructor leaves unset.
\<close>

record ('o, 'b) plan =
  steps :: "step list"
  num_steps :: nat
  links :: "link list"
  num_links :: size_t
  orderings :: 'o
  bindings :: 'b
  decomposition_frames :: "decomposition_frame list"
  num_decomposition_frames :: size_t
  decomposition_links :: "decomposition_link list"
  num_decomposition_links :: size_t
  unsafes :: "unsafe list"
  num_unsafes :: size_t
  open_conds :: "open_condition list"
  num_open_conds :: size_t
  unexpanded_steps :: "unexpanded_composite_step list"
  num_unexpanded_steps :: size_t
  mutex_threats :: "mutex_threat list"
  rank :: "cfloat list"
  serial_no :: "nat option"

text \<open>
  The constructor \<^verbatim>\<open>Plan::Plan\<close>: it stores its arguments; the rank vector starts
  empty and the serial number is not initialised.  The last argument, the
  parent, is used for the depth in debug builds only.
\<close>

definition Plan ::
  "step list \<Rightarrow> nat \<Rightarrow> link list \<Rightarrow> size_t \<Rightarrow> 'o \<Rightarrow> 'b \<Rightarrow>
   decomposition_frame list \<Rightarrow> size_t \<Rightarrow> decomposition_link list \<Rightarrow> size_t \<Rightarrow>
   unsafe list \<Rightarrow> size_t \<Rightarrow> open_condition list \<Rightarrow> size_t \<Rightarrow>
   unexpanded_composite_step list \<Rightarrow> size_t \<Rightarrow> mutex_threat list \<Rightarrow> ('o, 'b) plan" where
  "Plan steps' num_steps' links' num_links' orderings' bindings'
        decomposition_frames' num_decomposition_frames'
        decomposition_links' num_decomposition_links'
        unsafes' num_unsafes' open_conds' num_open_conds'
        unexpanded_steps' num_unexpanded_steps' mutex_threats' =
     \<lparr>steps = steps', num_steps = num_steps',
      links = links', num_links = num_links',
      orderings = orderings', bindings = bindings',
      decomposition_frames = decomposition_frames',
      num_decomposition_frames = num_decomposition_frames',
      decomposition_links = decomposition_links',
      num_decomposition_links = num_decomposition_links',
      unsafes = unsafes', num_unsafes = num_unsafes',
      open_conds = open_conds', num_open_conds = num_open_conds',
      unexpanded_steps = unexpanded_steps', num_unexpanded_steps = num_unexpanded_steps',
      mutex_threats = mutex_threats',
      rank = [], serial_no = None\<rparr>"

definition GOAL_ID :: nat where
  "GOAL_ID = 2147483647"

text \<open>\<^verbatim>\<open>Plan::complete\<close>: all four flaw chains are \<^verbatim>\<open>NULL\<close>.\<close>

definition plan_complete :: "('o, 'b) plan \<Rightarrow> bool" where
  "plan_complete p \<longleftrightarrow>
     unsafes p = [] \<and> open_conds p = [] \<and> mutex_threats p = [] \<and> unexpanded_steps p = []"

subsection \<open>The search context and the process-wide state\<close>

text \<open>
  The planner keeps its parameters, the domain, the problem, the planning graph
  and the achiever tables in file-level variables that are set once by
  \<^verbatim>\<open>Plan::plan\<close> and only read by the refinement operators.  They are gathered in
  one record together with the operations of the collaborators whose code is
  not in \<^verbatim>\<open>plans.cc\<close>: the orderings, the bindings, the formula algebra, the time
  conversions and the C library's \<^verbatim>\<open>rand\<close>.  \<open>rand_value k\<close> is what the \<open>k\<close>-th
  call of \<^verbatim>\<open>rand()\<close> returns.  A multimap is an association list in iteration
  order; actions and decompositions are compared by value where the program
  compares their addresses.
\<close>

record ('o, 'b) env =
  ground_actions :: bool
  domain_constraints :: bool
  strip_static_preconditions :: bool
  random_open_conditions :: bool
  durative_actions :: bool
  has_planning_graph :: bool
  static_predicate :: "predicate \<Rightarrow> bool"
  rand_value :: "nat \<Rightarrow> nat"
  RAND_MAX :: nat
  problem_goal :: formula
  init_action :: action
  timed_actions :: "(real \<times> action) list"
  instantiation_of :: "formula \<Rightarrow> formula"
  pg_literal_achievers :: "literal_t \<Rightarrow> (action \<times> effect) list option"
  achieves_pred :: "predicate \<Rightarrow> (action \<times> effect) list option"
  achieves_neg_pred :: "predicate \<Rightarrow> (action \<times> effect) list option"
  achieves_composite :: "(action \<times> decomposition) list"
  end_time_effect :: "effect \<Rightarrow> step_time"
  end_time :: "formula_time \<Rightarrow> step_time"
  start_time :: "formula_time \<Rightarrow> step_time"
  step_time_ge :: "step_time \<Rightarrow> step_time \<Rightarrow> bool"
  new_binary_orderings :: 'o
  new_temporal_orderings :: 'o
  is_temporal :: "'o \<Rightarrow> bool"
  possibly_before :: "'o \<Rightarrow> nat \<Rightarrow> step_time \<Rightarrow> nat \<Rightarrow> step_time \<Rightarrow> bool"
  possibly_not_before :: "'o \<Rightarrow> nat \<Rightarrow> step_time \<Rightarrow> nat \<Rightarrow> step_time \<Rightarrow> bool"
  possibly_not_after :: "'o \<Rightarrow> nat \<Rightarrow> step_time \<Rightarrow> nat \<Rightarrow> step_time \<Rightarrow> bool"
  possibly_concurrent :: "'o \<Rightarrow> nat \<Rightarrow> nat \<Rightarrow> (bool \<times> bool \<times> bool \<times> bool) option"
  refine :: "'o \<Rightarrow> ordering \<Rightarrow> 'o option"
  refine_step :: "'o \<Rightarrow> ordering \<Rightarrow> step \<Rightarrow> 'b option \<Rightarrow> 'o option"
  refine_timed :: "'o \<Rightarrow> real \<Rightarrow> step \<Rightarrow> 'o option"
  refine_makespan :: "'o \<Rightarrow> nat \<Rightarrow> real \<Rightarrow> real \<Rightarrow> 'o option"
  heuristic_makespans :: "formula \<Rightarrow> nat \<Rightarrow> 'b option \<Rightarrow> real \<times> real"
  EMPTY_bindings :: 'b
  bindings_add :: "'b \<Rightarrow> binding_t list \<Rightarrow> bool \<Rightarrow> 'b option"
  bindings_add_step :: "'b \<Rightarrow> nat \<Rightarrow> action \<Rightarrow> 'b option"
  unify :: "'b \<Rightarrow> literal_t \<Rightarrow> nat \<Rightarrow> literal_t \<Rightarrow> nat \<Rightarrow> binding_t list option"
  affects :: "'b \<Rightarrow> literal_t \<Rightarrow> nat \<Rightarrow> literal_t option \<Rightarrow> nat \<Rightarrow> binding_t list option"
  bindings_domain :: "'b \<Rightarrow> variable \<Rightarrow> nat \<Rightarrow> object list"
  consistent_with :: "'b \<Rightarrow> formula \<Rightarrow> bool"
  quantifies :: "effect \<Rightarrow> variable \<Rightarrow> bool"
  formula_or :: "formula \<Rightarrow> formula \<Rightarrow> formula"
  formula_and :: "formula \<Rightarrow> formula \<Rightarrow> formula"
  formula_not :: "formula \<Rightarrow> formula"
  make_inequality :: "variable \<Rightarrow> nat \<Rightarrow> pterm \<Rightarrow> nat \<Rightarrow> formula"
  make_forall :: "variable list \<Rightarrow> formula \<Rightarrow> formula"
  substitution :: "formula \<Rightarrow> (variable \<times> variable) list \<Rightarrow> formula"
  plan_rank :: "('o, 'b) plan \<Rightarrow> cfloat list"

text \<open>
  What the refinement operators change outside the plans they build: the
  number of calls of \<^verbatim>\<open>rand()\<close> made so far and the number of variables in the
  term table (\<^verbatim>\<open>TermTable::add_variable\<close> hands out the next one).
\<close>

record globals =
  rand_calls :: nat
  num_variables :: nat

subsection \<open>Chains\<close>

text \<open>
  Modelled from the spec: \<^verbatim>\<open>chain.h\<close> is not part of the sources at hand.
  \<^verbatim>\<open>remove(x)\<close> yields the chain with the first matching element omitted
  (section 3 of the specification).  It is a member function, so calling it on
  an empty chain dereferences \<^verbatim>\<open>NULL\<close>.
\<close>

definition chain_remove :: "'a \<Rightarrow> 'a list \<Rightarrow> error + 'a list" where
  "chain_remove x xs = (if xs = [] then Inl NullPointer else Inr (remove1 x xs))"

subsection \<open>Goal admission\<close>

text \<open>
  The reference parameters of \<^verbatim>\<open>add_goal\<close> (the chain of open conditions, their
  number and the list of new bindings) and the process-wide state travel in
  one record.
\<close>

record goal_vars =
  gv_open_conds :: "open_condition list"
  gv_num_open_conds :: size_t
  gv_new_bindings :: "binding_t list"
  gv_globals :: globals

text \<open>
  Pushing a goal on the work list: at the back, or with
  \<^verbatim>\<open>random_open_conditions\<close> at the position
  \<^verbatim>\<open>size_t((goals.size() + 1.0)*rand()/(RAND_MAX + 1.0))\<close>, the goal that was there
  moving to the back.  \<^verbatim>\<open>rand()\<close> answers a value from 0 to \<^verbatim>\<open>RAND_MAX\<close>, so the
  position is at most the size of the list.
\<close>

definition push_goal ::
  "('o, 'b) env \<Rightarrow> formula \<Rightarrow> formula list \<times> globals \<Rightarrow> formula list \<times> globals" where
  "push_goal env f gg =
     (case gg of (goals, g) \<Rightarrow>
        if random_open_conditions env
        then (let r = rand_value env (rand_calls g) mod (RAND_MAX env + 1);
                  pos = ((length goals + 1) * r) div (RAND_MAX env + 1);
                  g' = g\<lparr>rand_calls := rand_calls g + 1\<rparr>
              in if pos = length goals then (goals @ [f], g')
                 else ((goals[pos := f]) @ [goals ! pos], g'))
        else (goals @ [f], g))"

text \<open>The branch of the loop body for a literal with its time.\<close>

definition add_literal_goal ::
  "('o, 'b) env \<Rightarrow> nat \<Rightarrow> bool \<Rightarrow> literal_t \<Rightarrow> formula_time \<Rightarrow> goal_vars \<Rightarrow> goal_vars" where
  "add_literal_goal env step_id test_only l when st =
     (let st' = (if \<not> test_only
                    \<and> \<not> (strip_static_preconditions env \<and> static_predicate env (literal_predicate l))
                 then st\<lparr>gv_open_conds := OpenCondition step_id l when # gv_open_conds st\<rparr>
                 else st)
      in st'\<lparr>gv_num_open_conds := gv_num_open_conds st' + 1\<rparr>)"

text \<open>
  One iteration of the loop of \<^verbatim>\<open>add_goal\<close>: \<open>goal\<close> has been popped from the back
  of the work list, \<open>goals\<close> is what remains.  The tests are in the order of the
  dynamic casts.  The branch guarded by \<^verbatim>\<open>BRANCH_ON_INEQUALITY\<close> is not compiled.
\<close>

fun add_goal_step ::
  "('o, 'b) env \<Rightarrow> nat \<Rightarrow> bool \<Rightarrow> formula \<Rightarrow> formula list \<Rightarrow> goal_vars \<Rightarrow>
   error + (formula list \<times> goal_vars)" where
  "add_goal_step env step_id test_only (TimedLiteral l when) goals st =
     Inr (goals, add_literal_goal env step_id test_only l when st)"
| "add_goal_step env step_id test_only (Lit l) goals st =
     Inr (goals, add_literal_goal env step_id test_only l AT_START st)"
| "add_goal_step env step_id test_only (Conjunction gs) goals st =
     (case fold (push_goal env) gs (goals, gv_globals st) of
        (goals', g') \<Rightarrow> Inr (goals', st\<lparr>gv_globals := g'\<rparr>))"
| "add_goal_step env step_id test_only (Disjunction ds) goals st =
     (let st' = (if \<not> test_only
                 then st\<lparr>gv_open_conds := OpenConditionDisj step_id ds # gv_open_conds st\<rparr>
                 else st)
      in Inr (goals, st'\<lparr>gv_num_open_conds := gv_num_open_conds st' + 1\<rparr>))"
| "add_goal_step env step_id test_only (Equality v id1 t id2) goals st =
     Inr (goals, st\<lparr>gv_new_bindings := gv_new_bindings st
            @ [Binding v (bl_step_id id1 step_id) t (bl_step_id id2 step_id) True]\<rparr>)"
| "add_goal_step env step_id test_only (Inequality v id1 t id2) goals st =
     Inr (goals, st\<lparr>gv_new_bindings := gv_new_bindings st
            @ [Binding v (bl_step_id id1 step_id) t (bl_step_id id2 step_id) False]\<rparr>)"
| "add_goal_step env step_id test_only (Exists vs body) goals st =
     (case push_goal env body (goals, gv_globals st) of
        (goals', g') \<Rightarrow> Inr (goals', st\<lparr>gv_globals := g'\<rparr>))"
| "add_goal_step env step_id test_only (Forall vs body base) goals st =
     (case push_goal env base (goals, gv_globals st) of
        (goals', g') \<Rightarrow> Inr (goals', st\<lparr>gv_globals := g'\<rparr>))"
| "add_goal_step env step_id test_only Tautology goals st =
     Inl (LogicError ''unknown kind of goal'')"
| "add_goal_step env step_id test_only Contradiction goals st =
     Inl (LogicError ''unknown kind of goal'')"

text \<open>The size of the work list, the measure of the loop.\<close>

definition goals_size :: "formula list \<Rightarrow> nat" where
  "goals_size goals = sum_list (map (\<lambda>f. Suc (size f)) goals)"

lemma sum_list_map_update:
  "pos < length xs \<Longrightarrow>
     sum_list (map h (xs[pos := f])) + h (xs ! pos) = sum_list (map h xs) + (h f :: nat)"
  by (induction xs arbitrary: pos) (auto split: nat.splits)

lemma goals_size_conv:
  "goals_size gs = sum_list (map size gs) + length gs"
  by (induction gs) (auto simp: goals_size_def)

lemma goals_size_push:
  assumes a: "push_goal env f (goals, g) = (goals', g')"
  shows "goals_size goals' = goals_size goals + Suc (size f)"
proof (cases "random_open_conditions env")
  case False
  then show ?thesis using a by (auto simp: push_goal_def goals_size_def)
next
  case True
  define r where "r = rand_value env (rand_calls g) mod (RAND_MAX env + 1)"
  define pos where "pos = ((length goals + 1) * r) div (RAND_MAX env + 1)"
  have "r < RAND_MAX env + 1" unfolding r_def by simp
  then have "(length goals + 1) * r < (length goals + 1) * (RAND_MAX env + 1)"
    unfolding mult_less_cancel1 by simp
  then have "pos < length goals + 1"
    unfolding pos_def by (simp add: less_mult_imp_div_less mult.commute)
  then have le: "pos \<le> length goals" by simp
  show ?thesis
  proof (cases "pos = length goals")
    case True
    then show ?thesis using a \<open>random_open_conditions env\<close>
      by (auto simp: push_goal_def Let_def goals_size_def pos_def r_def)
  next
    case False
    then have lt: "pos < length goals" using le by simp
    have g': "goals' = (goals[pos := f]) @ [goals ! pos]"
      using a \<open>random_open_conditions env\<close> False
      by (auto simp: push_goal_def Let_def pos_def r_def)
    show ?thesis
      unfolding g' goals_size_def
      using sum_list_map_update[OF lt, of "\<lambda>f. Suc (size f)" f] by simp
  qed
qed

lemma goals_size_fold_push:
  "fold (push_goal env) gs (goals, g) = (goals', g') \<Longrightarrow>
     goals_size goals' = goals_size goals + goals_size gs"
proof (induction gs arbitrary: goals g)
  case Nil
  then show ?case by (simp add: goals_size_def)
next
  case (Cons f gs)
  obtain goals1 g1 where p: "push_goal env f (goals, g) = (goals1, g1)"
    by (cases "push_goal env f (goals, g)") auto
  from Cons.prems p have "fold (push_goal env) gs (goals1, g1) = (goals', g')" by simp
  from Cons.IH[OF this] goals_size_push[OF p] show ?case
    by (simp add: goals_size_def)
qed

lemma add_goal_step_decreases:
  assumes a: "add_goal_step env step_id test_only goal goals st = Inr (goals', st')"
  shows "goals_size goals' < goals_size goals + Suc (size goal)"
proof (cases goal)
  case (Conjunction gs)
  obtain goals1 g1 where f: "fold (push_goal env) gs (goals, gv_globals st) = (goals1, g1)"
    by (cases "fold (push_goal env) gs (goals, gv_globals st)") auto
  have "goals' = goals1" using a f Conjunction by simp
  moreover have "goals_size gs < Suc (size (Conjunction gs))"
    by (simp add: goals_size_conv size_list_conv_sum_list)
  ultimately show ?thesis using goals_size_fold_push[OF f] Conjunction by simp
next
  case (Exists vs body)
  obtain goals1 g1 where f: "push_goal env body (goals, gv_globals st) = (goals1, g1)"
    by (cases "push_goal env body (goals, gv_globals st)") auto
  have "goals' = goals1" using a f Exists by simp
  then show ?thesis using goals_size_push[OF f] Exists by simp
next
  case (Forall vs body base)
  obtain goals1 g1 where f: "push_goal env base (goals, gv_globals st) = (goals1, g1)"
    by (cases "push_goal env base (goals, gv_globals st)") auto
  have "goals' = goals1" using a f Forall by simp
  then show ?thesis using goals_size_push[OF f] Forall by simp
qed (use a in \<open>auto simp: Let_def\<close>)

lemma goals_size_pop:
  "goals \<noteq> [] \<Longrightarrow> goals_size (butlast goals) + Suc (size (last goals)) = goals_size goals"
  by (induction goals) (auto simp: goals_size_def)

text \<open>The loop of \<^verbatim>\<open>add_goal\<close>: pop the back of the work list until it is empty.\<close>

function add_goal_loop ::
  "('o, 'b) env \<Rightarrow> nat \<Rightarrow> bool \<Rightarrow> formula list \<Rightarrow> goal_vars \<Rightarrow> error + goal_vars" where
  "add_goal_loop env step_id test_only goals st =
     (if goals = [] then Inr st
      else (case add_goal_step env step_id test_only (last goals) (butlast goals) st of
              Inl e \<Rightarrow> Inl e
            | Inr (goals', st') \<Rightarrow> add_goal_loop env step_id test_only goals' st'))"
  by pat_completeness auto
termination
proof (relation "measure (\<lambda>(env, step_id, test_only, goals, st). goals_size goals)")
  show "wf (measure (\<lambda>(env, step_id, test_only, goals, st). goals_size goals))" by simp
next
  fix env :: "('o, 'b) env" and step_id test_only goals st x2 goals' st'
  assume ne: "goals \<noteq> []"
    and s: "add_goal_step env step_id test_only (last goals) (butlast goals) st = Inr x2"
    and x: "(goals', st') = x2"
  from s x have "add_goal_step env step_id test_only (last goals) (butlast goals) st
      = Inr (goals', st')" by simp
  from add_goal_step_decreases[OF this] goals_size_pop[OF ne]
  show "((env, step_id, test_only, goals', st'), (env, step_id, test_only, goals, st))
      \<in> measure (\<lambda>(env, step_id, test_only, goals, st). goals_size goals)"
    by simp
qed

declare add_goal_loop.simps [simp del]

text \<open>
  \<^verbatim>\<open>add_goal\<close>: a tautology is accepted and a contradiction refused without
  looking further; any other goal goes through the loop, which ends by
  returning true or by throwing.
\<close>

definition add_goal ::
  "('o, 'b) env \<Rightarrow> goal_vars \<Rightarrow> formula \<Rightarrow> nat \<Rightarrow> bool \<Rightarrow> error + (bool \<times> goal_vars)" where
  "add_goal env st goal step_id test_only =
     (if tautology goal then Inr (True, st)
      else if contradiction goal then Inr (False, st)
      else (case add_goal_loop env step_id test_only [goal] st of
              Inl e \<Rightarrow> Inl e
            | Inr st' \<Rightarrow> Inr (True, st')))"

subsection \<open>The initial plan\<close>

text \<open>
  \<^verbatim>\<open>new ActionSchema("", false, false)\<close> or \<^verbatim>\<open>new GroundAction("", false, false)\<close>,
  followed by \<^verbatim>\<open>set_condition\<close>: the goal action has the empty name, no
  parameters and no effects, and the goal as its condition.
\<close>

definition make_goal_action :: "('o, 'b) env \<Rightarrow> action" where
  "make_goal_action env =
     (if ground_actions env
      then \<lparr>a_name = [], a_schema = False, a_durative = False, a_composite = False,
            a_parameters = [], a_condition = instantiation_of env (problem_goal env),
            a_effects = []\<rparr>
      else \<lparr>a_name = [], a_schema = True, a_durative = False, a_composite = False,
            a_parameters = [], a_condition = problem_goal env, a_effects = []\<rparr>)"

text \<open>
  The loop over the timed initial literals: each becomes a step, and the
  temporal orderings are refined with its time; \<open>None\<close> when a refinement fails.
\<close>

fun add_timed_steps ::
  "('o, 'b) env \<Rightarrow> (real \<times> action) list \<Rightarrow> 'o \<Rightarrow> step list \<Rightarrow> nat \<Rightarrow>
   ('o \<times> step list \<times> nat) option" where
  "add_timed_steps env [] tord stps n = Some (tord, stps, n)"
| "add_timed_steps env ((t, a) # rest) tord stps n =
     (let n' = n + 1; stps' = Step n' a # stps
      in case refine_timed env tord t (Step n' a) of
           None \<Rightarrow> None
         | Some tmp \<Rightarrow> add_timed_steps env rest tmp stps' n')"

text \<open>
  \<^verbatim>\<open>Plan::make_initial_plan\<close>; \<open>None\<close> stands for the \<^verbatim>\<open>NULL\<close> it returns when the
  goal or the timed initial literals are inconsistent.  The bindings that goal
  admission collects are not used by the program.
\<close>

definition make_initial_plan ::
  "('o, 'b) env \<Rightarrow> globals \<Rightarrow> error + (('o, 'b) plan option \<times> globals)" where
  "make_initial_plan env g =
     (let goal_action = make_goal_action env
      in case add_goal env \<lparr>gv_open_conds = [], gv_num_open_conds = 0,
                            gv_new_bindings = [], gv_globals = g\<rparr>
                (a_condition goal_action) GOAL_ID False of
           Inl e \<Rightarrow> Inl e
         | Inr (consistent, st) \<Rightarrow>
             if \<not> consistent then Inr (None, gv_globals st)
             else
               (let mutex_threats' = [MutexThreat0];
                    stps = [Step 0 (init_action env), Step GOAL_ID goal_action];
                    n = 0;
                    bnds = EMPTY_bindings env
                in if durative_actions env
                   then (case add_timed_steps env (timed_actions env)
                               (new_temporal_orderings env) stps n of
                           None \<Rightarrow> Inr (None, gv_globals st)
                         | Some (tord, stps', n') \<Rightarrow>
                             Inr (Some (Plan stps' n' [] 0 tord bnds [] 0 [] 0 [] 0
                                          (gv_open_conds st) (gv_num_open_conds st)
                                          [] 0 mutex_threats'),
                                  gv_globals st))
                   else Inr (Some (Plan stps n [] 0 (new_binary_orderings env) bnds
                                     [] 0 [] 0 [] 0
                                     (gv_open_conds st) (gv_num_open_conds st)
                                     [] 0 mutex_threats'),
                             gv_globals st)))"

subsection \<open>Repair of unsafe links\<close>

text \<open>
  \<^verbatim>\<open>TermTable::add_variable\<close> called \<open>n\<close> times: the next \<open>n\<close> variables of the term
  table.
\<close>

definition add_variables :: "nat \<Rightarrow> globals \<Rightarrow> variable list \<times> globals" where
  "add_variables n g =
     ([num_variables g ..< num_variables g + n], g\<lparr>num_variables := num_variables g + n\<rparr>)"

fun is_inequality :: "formula \<Rightarrow> bool" where
  "is_inequality (Inequality v i1 t i2) = True"
| "is_inequality _ = False"

text \<open>
  The first loop of \<^verbatim>\<open>separate\<close>: the disjunction of the inequalities that undo
  the unifier, over the variables the effect does not quantify.
\<close>

definition separation_bindings_goal ::
  "('o, 'b) env \<Rightarrow> 'b \<Rightarrow> (variable \<Rightarrow> bool) \<Rightarrow> binding_t list \<Rightarrow> formula" where
  "separation_bindings_goal env bnds quantified unifier =
     fold (\<lambda>subst goal.
             if \<not> quantified (b_var subst)
             then (let g = make_inequality env (b_var subst) (b_var_id subst)
                             (b_term subst) (b_term_id subst)
                   in if \<not> is_inequality g \<or> consistent_with env bnds g
                      then formula_or env goal g else goal)
             else goal)
          unifier Contradiction"

text \<open>
  The negated condition of an effect as a goal, universally quantified over
  fresh copies of the parameters of the effect (over the parameters themselves
  with \<^verbatim>\<open>test_only\<close>).
\<close>

definition negated_condition_goal ::
  "('o, 'b) env \<Rightarrow> effect \<Rightarrow> bool \<Rightarrow> globals \<Rightarrow> formula \<times> globals" where
  "negated_condition_goal env eff test_only g =
     (let n = length (e_parameters eff)
      in if n > 0
         then (let (vs, g') = (if test_only then (e_parameters eff, g) else add_variables n g);
                   forall_subst = (if test_only then [] else zip (e_parameters eff) vs);
                   body = (if test_only then formula_not env (e_condition eff)
                           else formula_not env (substitution env (e_condition eff) forall_subst))
               in if tautology body \<or> contradiction body then (body, g')
                  else (make_forall env vs body, g'))
         else (formula_not env (e_condition eff), g))"

text \<open>
  The temporal tightening shared by the repairs: with a planning graph and
  temporal orderings, a goal that is not a tautology bounds the make span of
  the step.
\<close>

definition refine_by_goal ::
  "('o, 'b) env \<Rightarrow> 'o \<Rightarrow> formula \<Rightarrow> nat \<Rightarrow> 'b \<Rightarrow> 'o option" where
  "refine_by_goal env ords goal step_id bnds =
     (if \<not> tautology goal \<and> has_planning_graph env \<and> is_temporal env ords
      then (let (h, hs) = heuristic_makespans env goal step_id
                            (if ground_actions env then None else Some bnds)
            in refine_makespan env ords step_id hs h)
      else Some ords)"

text \<open>\<^verbatim>\<open>Plan::separate\<close> for an unsafe link; it answers the number of refinements.\<close>

definition separate ::
  "('o, 'b) env \<Rightarrow> ('o, 'b) plan \<Rightarrow> ('o, 'b) plan list \<Rightarrow> unsafe \<Rightarrow> binding_t list \<Rightarrow> bool \<Rightarrow>
   globals \<Rightarrow> error + (nat \<times> ('o, 'b) plan list \<times> globals)" where
  "separate env p plans us unifier test_only g =
     (let goal0 = separation_bindings_goal env (bindings p)
                    (quantifies env (u_effect us)) unifier;
          (goal, g1) =
            (if \<not> tautology (e_condition (u_effect us))
             then (let (c, g') = negated_condition_goal env (u_effect us) test_only g
                   in (formula_or env goal0 c, g'))
             else (goal0, g));
          st = \<lparr>gv_open_conds = (if test_only then [] else open_conds p),
                gv_num_open_conds = (if test_only then 0 else num_open_conds p),
                gv_new_bindings = [], gv_globals = g1\<rparr>
      in case add_goal env st goal (u_step_id us) test_only of
           Inl e \<Rightarrow> Inl e
         | Inr (added, st') \<Rightarrow>
             if \<not> added then Inr (0, plans, gv_globals st')
             else (case bindings_add env (bindings p) (gv_new_bindings st') test_only of
                     None \<Rightarrow> Inr (0, plans, gv_globals st')
                   | Some bnds \<Rightarrow>
                       if test_only then Inr (1, plans, gv_globals st')
                       else (case refine_by_goal env (orderings p) goal (u_step_id us) bnds of
                               None \<Rightarrow> Inr (1, plans, gv_globals st')
                             | Some new_orderings \<Rightarrow>
                                 (case chain_remove us (unsafes p) of
                                    Inl e \<Rightarrow> Inl e
                                  | Inr new_unsafes \<Rightarrow>
                                      Inr (1,
                                           plans @ [Plan (steps p) (num_steps p)
                                             (links p) (num_links p)
                                             new_orderings bnds
                                             (decomposition_frames p) (num_decomposition_frames p)
                                             (decomposition_links p) (num_decomposition_links p)
                                             new_unsafes (num_unsafes p - 1)
                                             (gv_open_conds st') (gv_num_open_conds st')
                                             (unexpanded_steps p) (num_unexpanded_steps p)
                                             (mutex_threats p)],
                                           gv_globals st')))))"

text \<open>\<^verbatim>\<open>Plan::new_ordering\<close> for an unsafe link.\<close>

definition new_ordering ::
  "('o, 'b) env \<Rightarrow> ('o, 'b) plan \<Rightarrow> ('o, 'b) plan list \<Rightarrow> nat \<Rightarrow> step_time \<Rightarrow> nat \<Rightarrow> step_time \<Rightarrow>
   unsafe \<Rightarrow> error + ('o, 'b) plan list" where
  "new_ordering env p plans before_id' t1 after_id' t2 us =
     (case refine env (orderings p) (Ordering before_id' t1 after_id' t2) of
        None \<Rightarrow> Inr plans
      | Some new_orderings \<Rightarrow>
          (case chain_remove us (unsafes p) of
             Inl e \<Rightarrow> Inl e
           | Inr new_unsafes \<Rightarrow>
               Inr (plans @ [Plan (steps p) (num_steps p)
                      (links p) (num_links p)
                      new_orderings (bindings p)
                      (decomposition_frames p) (num_decomposition_frames p)
                      (decomposition_links p) (num_decomposition_links p)
                      new_unsafes (num_unsafes p - 1)
                      (open_conds p) (num_open_conds p)
                      (unexpanded_steps p) (num_unexpanded_steps p)
                      (mutex_threats p)])))"

text \<open>\<^verbatim>\<open>Plan::demote\<close> and \<^verbatim>\<open>Plan::promote\<close> for an unsafe link.\<close>

definition demote ::
  "('o, 'b) env \<Rightarrow> ('o, 'b) plan \<Rightarrow> ('o, 'b) plan list \<Rightarrow> unsafe \<Rightarrow> bool \<Rightarrow>
   error + (nat \<times> ('o, 'b) plan list)" where
  "demote env p plans us test_only =
     (let lnk = u_link us;
          lt1 = l_effect_time lnk;
          et = end_time_effect env (u_effect us)
      in if possibly_before env (orderings p) (u_step_id us) et (l_from_id lnk) lt1
         then (if \<not> test_only
               then (case new_ordering env p plans (u_step_id us) et (l_from_id lnk) lt1 us of
                       Inl e \<Rightarrow> Inl e
                     | Inr plans' \<Rightarrow> Inr (1, plans'))
               else Inr (1, plans))
         else Inr (0, plans))"

definition promote ::
  "('o, 'b) env \<Rightarrow> ('o, 'b) plan \<Rightarrow> ('o, 'b) plan list \<Rightarrow> unsafe \<Rightarrow> bool \<Rightarrow>
   error + (nat \<times> ('o, 'b) plan list)" where
  "promote env p plans us test_only =
     (let lnk = u_link us;
          lt2 = end_time env (l_condition_time lnk);
          et = end_time_effect env (u_effect us)
      in if possibly_before env (orderings p) (l_to_id lnk) lt2 (u_step_id us) et
         then (if \<not> test_only
               then (case new_ordering env p plans (l_to_id lnk) lt2 (u_step_id us) et us of
                       Inl e \<Rightarrow> Inl e
                     | Inr plans' \<Rightarrow> Inr (1, plans'))
               else Inr (1, plans))
         else Inr (0, plans))"

text \<open>
  The test shared by \<^verbatim>\<open>handle_unsafe\<close>, \<^verbatim>\<open>separable\<close> and \<^verbatim>\<open>unsafe_refinements\<close>:
  the orderings allow the step between the ends of the link and the bindings
  let the effect affect the condition of the link.  It answers the unifier when
  the threat is real, and \<open>None\<close> for a bogus flaw.
\<close>

definition real_threat :: "('o, 'b) env \<Rightarrow> ('o, 'b) plan \<Rightarrow> unsafe \<Rightarrow> binding_t list option" where
  "real_threat env p us =
     (let lnk = u_link us;
          lt1 = l_effect_time lnk;
          lt2 = end_time env (l_condition_time lnk);
          et = end_time_effect env (u_effect us)
      in if possibly_not_after env (orderings p) (l_from_id lnk) lt1 (u_step_id us) et
            \<and> possibly_not_before env (orderings p) (l_to_id lnk) lt2 (u_step_id us) et
         then affects env (bindings p) (e_literal (u_effect us)) (u_step_id us)
                (l_condition lnk) (l_to_id lnk)
         else None)"

text \<open>\<^verbatim>\<open>Plan::handle_unsafe\<close>: the three repairs of a real threat, or the removal of a bogus flaw.\<close>

definition handle_unsafe ::
  "('o, 'b) env \<Rightarrow> ('o, 'b) plan \<Rightarrow> ('o, 'b) plan list \<Rightarrow> unsafe \<Rightarrow> globals \<Rightarrow>
   error + (('o, 'b) plan list \<times> globals)" where
  "handle_unsafe env p plans us g =
     (case real_threat env p us of
        Some unifier \<Rightarrow>
          (case separate env p plans us unifier False g of
             Inl e \<Rightarrow> Inl e
           | Inr (n1, plans1, g1) \<Rightarrow>
               (case promote env p plans1 us False of
                  Inl e \<Rightarrow> Inl e
                | Inr (n2, plans2) \<Rightarrow>
                    (case demote env p plans2 us False of
                       Inl e \<Rightarrow> Inl e
                     | Inr (n3, plans3) \<Rightarrow> Inr (plans3, g1))))
      | None \<Rightarrow>
          (case chain_remove us (unsafes p) of
             Inl e \<Rightarrow> Inl e
           | Inr new_unsafes \<Rightarrow>
               Inr (plans @ [Plan (steps p) (num_steps p) (links p) (num_links p)
                      (orderings p) (bindings p)
                      (decomposition_frames p) (num_decomposition_frames p)
                      (decomposition_links p) (num_decomposition_links p)
                      new_unsafes (num_unsafes p - 1)
                      (open_conds p) (num_open_conds p)
                      (unexpanded_steps p) (num_unexpanded_steps p)
                      (mutex_threats p)], g)))"

subsection \<open>Repair of open conditions: inequalities\<close>

text \<open>\<^verbatim>\<open>Term::as_variable\<close>: the variable a term is; an object is not a variable.\<close>

fun as_variable :: "pterm \<Rightarrow> error + variable" where
  "as_variable (Var v) = Inr v"
| "as_variable (Obj ob) = Inl NotAVariable"

text \<open>
  The loop of \<^verbatim>\<open>handle_inequality\<close> over the names of the chosen domain: each
  name that the bindings accept counts, and without \<^verbatim>\<open>test_only\<close> gives a plan.
\<close>

fun inequality_branches ::
  "('o, 'b) env \<Rightarrow> ('o, 'b) plan \<Rightarrow> open_condition \<Rightarrow> bool \<Rightarrow>
   variable \<Rightarrow> nat \<Rightarrow> variable \<Rightarrow> nat \<Rightarrow> object list \<Rightarrow> nat \<Rightarrow> ('o, 'b) plan list \<Rightarrow>
   error + (nat \<times> ('o, 'b) plan list)" where
  "inequality_branches env p open_cond test_only var1 id1 var2 id2 [] count plans =
     Inr (count, plans)"
| "inequality_branches env p open_cond test_only var1 id1 var2 id2 (name # names) count plans =
     (let new_bindings = [Binding var1 id1 (Obj name) 0 True,
                          Binding var2 id2 (Obj name) 0 False]
      in case bindings_add env (bindings p) new_bindings test_only of
           None \<Rightarrow>
             inequality_branches env p open_cond test_only var1 id1 var2 id2 names count plans
         | Some bnds \<Rightarrow>
             if \<not> test_only
             then (case chain_remove open_cond (open_conds p) of
                     Inl e \<Rightarrow> Inl e
                   | Inr new_open_conds \<Rightarrow>
                       inequality_branches env p open_cond test_only var1 id1 var2 id2 names
                         (count + 1)
                         (plans @ [Plan (steps p) (num_steps p) (links p) (num_links p)
                            (orderings p) bnds
                            (decomposition_frames p) (num_decomposition_frames p)
                            (decomposition_links p) (num_decomposition_links p)
                            (unsafes p) (num_unsafes p)
                            new_open_conds (num_open_conds p - 1)
                            (unexpanded_steps p) (num_unexpanded_steps p)
                            (mutex_threats p)]))
             else inequality_branches env p open_cond test_only var1 id1 var2 id2 names
                    (count + 1) plans)"

text \<open>
  \<^verbatim>\<open>Plan::handle_inequality\<close> for the inequality of \<open>variable\<close> (at step \<open>sid1\<close>) and
  the term \<open>trm\<close> (at step \<open>sid2\<close>); a stored step id 0 stands for the step of the
  open condition.
\<close>

definition handle_inequality ::
  "('o, 'b) env \<Rightarrow> ('o, 'b) plan \<Rightarrow> ('o, 'b) plan list \<Rightarrow>
   variable \<Rightarrow> nat \<Rightarrow> pterm \<Rightarrow> nat \<Rightarrow> open_condition \<Rightarrow> bool \<Rightarrow>
   error + (nat \<times> ('o, 'b) plan list)" where
  "handle_inequality env p plans variable sid1 trm sid2 open_cond test_only =
     (let step_id = oc_step_id open_cond
      in case as_variable trm of
           Inl e \<Rightarrow> Inl e
         | Inr variable2 \<Rightarrow>
             (let d1 = bindings_domain env (bindings p) variable (bl_step_id sid1 step_id);
                  d2 = bindings_domain env (bindings p) variable2 (bl_step_id sid2 step_id);
                  var1 = (if length d1 < length d2 then variable else variable2);
                  id1 = (if length d1 < length d2 then bl_step_id sid1 step_id
                         else bl_step_id sid2 step_id);
                  var2 = (if length d1 < length d2 then variable2 else variable);
                  id2 = (if length d1 < length d2 then bl_step_id sid2 step_id
                         else bl_step_id sid1 step_id);
                  var_domain = (if length d1 < length d2 then d1 else d2)
              in inequality_branches env p open_cond test_only var1 id1 var2 id2
                   var_domain 0 plans))"

subsection \<open>Threat detection\<close>

fun is_negation :: "literal_t option \<Rightarrow> bool" where
  "is_negation (Some (Negation a)) = True"
| "is_negation _ = False"

text \<open>
  The test in the inner loops of \<^verbatim>\<open>link_threats\<close> and \<^verbatim>\<open>step_threats\<close>: the effect
  \<open>e\<close> of the step \<open>sid\<close> threatens the link.
\<close>

definition effect_threatens ::
  "('o, 'b) env \<Rightarrow> 'o \<Rightarrow> 'b \<Rightarrow> link \<Rightarrow> nat \<Rightarrow> effect \<Rightarrow> bool" where
  "effect_threatens env ords bnds lnk sid e =
     (let lt1 = l_effect_time lnk;
          lt2 = end_time env (l_condition_time lnk);
          et = end_time_effect env e
      in \<not> (\<not> durative_actions env \<and> contradiction (e_link_condition e))
         \<and> \<not> (sid = l_to_id lnk \<and> step_time_ge env et lt2)
         \<and> possibly_not_after env ords (l_from_id lnk) lt1 sid et
         \<and> possibly_not_before env ords (l_to_id lnk) lt2 sid et
         \<and> (is_negation (l_condition lnk) \<or> \<not> (l_from_id lnk = sid \<and> lt1 = et))
         \<and> affects env bnds (e_literal e) sid (l_condition lnk) (l_to_id lnk) \<noteq> None)"

text \<open>The outer test: the step may fall between the ends of the link.\<close>

definition step_may_threaten :: "('o, 'b) env \<Rightarrow> 'o \<Rightarrow> link \<Rightarrow> nat \<Rightarrow> bool" where
  "step_may_threaten env ords lnk sid =
     (possibly_not_after env ords (l_from_id lnk) (l_effect_time lnk) sid StepTime_AT_END
      \<and> possibly_not_before env ords (l_to_id lnk) (end_time env (l_condition_time lnk))
            sid StepTime_AT_START)"

definition effect_threats ::
  "('o, 'b) env \<Rightarrow> 'o \<Rightarrow> 'b \<Rightarrow> link \<Rightarrow> nat \<Rightarrow> effect list \<Rightarrow> unsafe list \<times> size_t \<Rightarrow>
   unsafe list \<times> size_t" where
  "effect_threats env ords bnds lnk sid effs acc =
     fold (\<lambda>e (us, n). if effect_threatens env ords bnds lnk sid e
                        then (Unsafe lnk sid e # us, n + 1) else (us, n))
          effs acc"

text \<open>\<^verbatim>\<open>link_threats\<close>: the threats to a link from the effects of every step.\<close>

definition link_threats ::
  "('o, 'b) env \<Rightarrow> unsafe list \<times> size_t \<Rightarrow> link \<Rightarrow> step list \<Rightarrow> 'o \<Rightarrow> 'b \<Rightarrow>
   unsafe list \<times> size_t" where
  "link_threats env acc lnk stps ords bnds =
     fold (\<lambda>s acc'. if step_may_threaten env ords lnk (s_id s)
                     then effect_threats env ords bnds lnk (s_id s) (a_effects (s_action s)) acc'
                     else acc')
          stps acc"

text \<open>\<^verbatim>\<open>step_threats\<close>: the links that the effects of a step threaten.\<close>

definition step_threats ::
  "('o, 'b) env \<Rightarrow> unsafe list \<times> size_t \<Rightarrow> step \<Rightarrow> link list \<Rightarrow> 'o \<Rightarrow> 'b \<Rightarrow>
   unsafe list \<times> size_t" where
  "step_threats env acc stp lnks ords bnds =
     fold (\<lambda>l acc'. if step_may_threaten env ords l (s_id stp)
                     then effect_threats env ords bnds l (s_id stp) (a_effects (s_action stp)) acc'
                     else acc')
          lnks acc"

subsection \<open>Repair of open conditions: links\<close>

text \<open>\<^verbatim>\<open>literal_achievers\<close>; \<open>None\<close> stands for \<^verbatim>\<open>NULL\<close>.\<close>

definition literal_achievers ::
  "('o, 'b) env \<Rightarrow> literal_t \<Rightarrow> (action \<times> effect) list option" where
  "literal_achievers env l =
     (if ground_actions env then pg_literal_achievers env l
      else (case l of
              Atom a \<Rightarrow> achieves_pred env (literal_predicate l)
            | Negation a \<Rightarrow> achieves_neg_pred env (literal_predicate l)))"

text \<open>
  A \<^verbatim>\<open>SubstitutionMap\<close> is a map from variables to variables; \<^verbatim>\<open>insert\<close> keeps an
  entry that is already there.
\<close>

definition subst_insert ::
  "variable \<Rightarrow> variable \<Rightarrow> (variable \<times> variable) list \<Rightarrow> (variable \<times> variable) list" where
  "subst_insert k v m = (if k \<in> fst ` set m then m else m @ [(k, v)])"

text \<open>
  The first part of \<^verbatim>\<open>make_link\<close>: the bindings that unify effect and goal.  A
  variable the effect quantifies is replaced by a fresh one.
\<close>

definition link_bindings ::
  "('o, 'b) env \<Rightarrow> effect \<Rightarrow> binding_t list \<Rightarrow> bool \<Rightarrow> globals \<Rightarrow>
   binding_t list \<times> (variable \<times> variable) list \<times> globals" where
  "link_bindings env eff unifier test_only g =
     (if test_only then (unifier, [], g)
      else fold (\<lambda>subst (nb, fs, g').
                   if quantifies env eff (b_var subst)
                   then (let v = num_variables g'
                         in (nb @ [Binding v (b_var_id subst) (b_term subst) (b_term_id subst) True],
                             subst_insert (b_var subst) v fs,
                             g'\<lparr>num_variables := v + 1\<rparr>))
                   else (nb @ [subst], fs, g'))
                unifier ([], [], g))"

text \<open>
  The condition of the effect as a goal: the parameters of the effect that
  have no fresh variable yet get one, and the condition is renamed.
\<close>

definition link_condition_goal ::
  "('o, 'b) env \<Rightarrow> effect \<Rightarrow> formula \<Rightarrow> (variable \<times> variable) list \<Rightarrow> bool \<Rightarrow> globals \<Rightarrow>
   formula \<times> globals" where
  "link_condition_goal env eff cond_goal forall_subst test_only g =
     (if \<not> test_only \<and> length (e_parameters eff) > 0
      then (let (fs, g1) =
                  fold (\<lambda>vi (fs, g'). if vi \<notin> fst ` set fs
                                       then (subst_insert vi (num_variables g') fs,
                                             g'\<lparr>num_variables := num_variables g' + 1\<rparr>)
                                       else (fs, g'))
                       (e_parameters eff) (forall_subst, g)
            in (substitution env cond_goal fs, g1))
      else (cond_goal, g))"

text \<open>
  The end of \<^verbatim>\<open>make_link\<close>: the new link, the threats to it, the threats by a new
  step, the unexpanded composite steps, and the plan.  For a step that is not
  new the local variable \<^verbatim>\<open>new_unexpanded_steps\<close> keeps its initial value
  \<^verbatim>\<open>nullptr\<close>.
\<close>

definition link_plan ::
  "('o, 'b) env \<Rightarrow> ('o, 'b) plan \<Rightarrow> step \<Rightarrow> effect \<Rightarrow> open_condition \<Rightarrow>
   step list \<Rightarrow> nat \<Rightarrow> 'o \<Rightarrow> 'b \<Rightarrow> open_condition list \<Rightarrow> size_t \<Rightarrow> ('o, 'b) plan" where
  "link_plan env p stp eff open_cond new_steps new_num_steps new_orderings bnds
     new_open_conds new_num_open_conds =
     (let new_links = Link (s_id stp) (end_time_effect env eff) open_cond # links p;
          acc1 = link_threats env (unsafes p, num_unsafes p) (hd new_links) new_steps
                   new_orderings bnds;
          new_mutex_threats = mutex_threats p;
          (new_unsafes, new_num_unsafes) =
            (if s_id stp > num_steps p
             then step_threats env acc1 stp (links p) new_orderings bnds
             else acc1);
          (new_unexpanded_steps, new_num_unexpanded_steps) =
            (if s_id stp > num_steps p
             then (if a_composite (s_action stp)
                   then (UnexpandedCompositeStep stp # unexpanded_steps p,
                         num_unexpanded_steps p + 1)
                   else (unexpanded_steps p, num_unexpanded_steps p))
             else ([], num_unexpanded_steps p))
      in Plan new_steps new_num_steps
           new_links (num_links p + 1)
           new_orderings bnds
           (decomposition_frames p) (num_decomposition_frames p)
           (decomposition_links p) (num_decomposition_links p)
           new_unsafes new_num_unsafes
           new_open_conds new_num_open_conds
           new_unexpanded_steps new_num_unexpanded_steps
           new_mutex_threats)"

text \<open>
  The middle of \<^verbatim>\<open>make_link\<close>, after the condition of the effect has been
  admitted: the precondition and the bindings of a new step, the new bindings,
  the orderings.  When the bindings are inconsistent the program returns 0
  unless \<^verbatim>\<open>test_only\<close> is set; with \<^verbatim>\<open>test_only\<close> it goes on and returns 1.
\<close>

definition make_link_step ::
  "('o, 'b) env \<Rightarrow> ('o, 'b) plan \<Rightarrow> ('o, 'b) plan list \<Rightarrow> step \<Rightarrow> effect \<Rightarrow> open_condition \<Rightarrow>
   formula \<Rightarrow> bool \<Rightarrow> goal_vars \<Rightarrow> error + (nat \<times> ('o, 'b) plan list \<times> globals)" where
  "make_link_step env p plans stp eff open_cond cond_goal test_only st =
     (let new_steps0 = (if test_only then [] else steps p);
          new_num_steps0 = (if test_only then 0 else num_steps p)
      in case (if s_id stp > num_steps p
               then add_goal env st (a_condition (s_action stp)) (s_id stp) test_only
               else Inr (True, st)) of
           Inl e \<Rightarrow> Inl e
         | Inr (added, st1) \<Rightarrow>
             if \<not> added then Inr (0, plans, gv_globals st1)
             else
               (case (if s_id stp > num_steps p \<and> domain_constraints env
                      then bindings_add_step env (bindings p) (s_id stp) (s_action stp)
                      else Some (bindings p)) of
                  None \<Rightarrow> Inr (0, plans, gv_globals st1)
                | Some bnds0 \<Rightarrow>
                    (let (new_steps, new_num_steps) =
                           (if s_id stp > num_steps p \<and> \<not> test_only
                            then (stp # new_steps0, new_num_steps0 + 1)
                            else (new_steps0, new_num_steps0))
                     in if test_only then Inr (1, plans, gv_globals st1)
                        else
                          (case bindings_add env bnds0 (gv_new_bindings st1) test_only of
                             None \<Rightarrow> Inr (0, plans, gv_globals st1)
                           | Some bnds \<Rightarrow>
                               (case (case refine_step env (orderings p)
                                             (Ordering (s_id stp) (end_time_effect env eff)
                                                (oc_step_id open_cond)
                                                (start_time env (oc_when open_cond)))
                                             stp (if ground_actions env then None else Some bnds) of
                                        None \<Rightarrow> None
                                      | Some ords \<Rightarrow>
                                          refine_by_goal env ords cond_goal (s_id stp) bnds) of
                                  None \<Rightarrow> Inr (0, plans, gv_globals st1)
                                | Some new_orderings \<Rightarrow>
                                    Inr (1,
                                         plans @ [link_plan env p stp eff open_cond
                                                    new_steps new_num_steps new_orderings bnds
                                                    (gv_open_conds st1) (gv_num_open_conds st1)],
                                         gv_globals st1))))))"

text \<open>\<^verbatim>\<open>Plan::make_link\<close>; it answers 1 when the link can be made and 0 otherwise.\<close>

definition make_link ::
  "('o, 'b) env \<Rightarrow> ('o, 'b) plan \<Rightarrow> ('o, 'b) plan list \<Rightarrow> step \<Rightarrow> effect \<Rightarrow> literal_t \<Rightarrow>
   open_condition \<Rightarrow> binding_t list \<Rightarrow> bool \<Rightarrow> globals \<Rightarrow>
   error + (nat \<times> ('o, 'b) plan list \<times> globals)" where
  "make_link env p plans stp eff lit open_cond unifier test_only g =
     (let (new_bindings, forall_subst, g0) = link_bindings env eff unifier test_only g
      in case (if test_only then Inr [] else chain_remove open_cond (open_conds p)) of
           Inl e \<Rightarrow> Inl e
         | Inr new_open_conds \<Rightarrow>
             (let st0 = \<lparr>gv_open_conds = new_open_conds,
                         gv_num_open_conds = (if test_only then 0 else num_open_conds p - 1),
                         gv_new_bindings = new_bindings, gv_globals = g0\<rparr>;
                  cond_goal0 = formula_and env (e_condition eff) (e_link_condition eff)
              in if \<not> tautology cond_goal0
                 then (let (cond_goal, g1) =
                             link_condition_goal env eff cond_goal0 forall_subst test_only g0
                       in case add_goal env (st0\<lparr>gv_globals := g1\<rparr>) cond_goal (s_id stp)
                                 test_only of
                            Inl e \<Rightarrow> Inl e
                          | Inr (added, st1) \<Rightarrow>
                              if \<not> added then Inr (0, plans, gv_globals st1)
                              else make_link_step env p plans stp eff open_cond cond_goal
                                     test_only st1)
                 else make_link_step env p plans stp eff open_cond cond_goal0 test_only st0))"

text \<open>\<^verbatim>\<open>Plan::new_link\<close>: a link when the effect unifies with the literal.\<close>

definition new_link ::
  "('o, 'b) env \<Rightarrow> ('o, 'b) plan \<Rightarrow> ('o, 'b) plan list \<Rightarrow> step \<Rightarrow> effect \<Rightarrow> literal_t \<Rightarrow>
   open_condition \<Rightarrow> bool \<Rightarrow> globals \<Rightarrow> error + (nat \<times> ('o, 'b) plan list \<times> globals)" where
  "new_link env p plans stp eff lit open_cond test_only g =
     (case unify env (bindings p) (e_literal eff) (s_id stp) lit (oc_step_id open_cond) of
        Some mgu \<Rightarrow> make_link env p plans stp eff lit open_cond mgu test_only g
      | None \<Rightarrow> Inr (0, plans, g))"

text \<open>
  The test for a dummy action: by convention its name begins with \<^verbatim>\<open><\<close>;
  \<^verbatim>\<open>name().substr(0, 1)\<close> is the first character, or the empty string.
\<close>

definition dummy_name :: "string \<Rightarrow> bool" where
  "dummy_name name \<longleftrightarrow> take 1 name = ''<''"

text \<open>\<^verbatim>\<open>Plan::add_step\<close>: a new step for every achiever that is not a dummy action.\<close>

fun add_step ::
  "('o, 'b) env \<Rightarrow> ('o, 'b) plan \<Rightarrow> ('o, 'b) plan list \<Rightarrow> literal_t \<Rightarrow> open_condition \<Rightarrow>
   (action \<times> effect) list \<Rightarrow> globals \<Rightarrow> error + (('o, 'b) plan list \<times> globals)" where
  "add_step env p plans lit open_cond [] g = Inr (plans, g)"
| "add_step env p plans lit open_cond ((act, eff) # achievers) g =
     (if \<not> dummy_name (a_name act)
      then (case new_link env p plans (Step (num_steps p + 1) act) eff lit open_cond False g of
              Inl e \<Rightarrow> Inl e
            | Inr (n, plans', g') \<Rightarrow> add_step env p plans' lit open_cond achievers g')
      else add_step env p plans lit open_cond achievers g)"

text \<open>
  \<^verbatim>\<open>Plan::addable_steps\<close>: the loop answers the count, or \<open>None\<close> as soon as the
  count exceeds the limit; the function then sets \<^verbatim>\<open>refinements\<close> and compares.
\<close>

fun addable_steps_loop ::
  "('o, 'b) env \<Rightarrow> ('o, 'b) plan \<Rightarrow> literal_t \<Rightarrow> open_condition \<Rightarrow> int \<Rightarrow>
   (action \<times> effect) list \<Rightarrow> nat \<Rightarrow> globals \<Rightarrow> error + (nat option \<times> globals)" where
  "addable_steps_loop env p lit open_cond limit [] count g = Inr (Some count, g)"
| "addable_steps_loop env p lit open_cond limit ((act, eff) # achievers) count g =
     (if \<not> dummy_name (a_name act)
      then (case new_link env p [] (Step (num_steps p + 1) act) eff lit open_cond True g of
              Inl e \<Rightarrow> Inl e
            | Inr (n, dummy, g') \<Rightarrow>
                if int (count + n) > limit then Inr (None, g')
                else addable_steps_loop env p lit open_cond limit achievers (count + n) g')
      else addable_steps_loop env p lit open_cond limit achievers count g)"

definition addable_steps ::
  "('o, 'b) env \<Rightarrow> ('o, 'b) plan \<Rightarrow> int \<Rightarrow> literal_t \<Rightarrow> open_condition \<Rightarrow> int \<Rightarrow> globals \<Rightarrow>
   error + (bool \<times> int \<times> globals)" where
  "addable_steps env p refinements lit open_cond limit g =
     (case addable_steps_loop env p lit open_cond limit
             (case literal_achievers env lit of None \<Rightarrow> [] | Some achievers \<Rightarrow> achievers) 0 g of
        Inl e \<Rightarrow> Inl e
      | Inr (None, g') \<Rightarrow> Inr (False, refinements, g')
      | Inr (Some count, g') \<Rightarrow> Inr (int count \<le> limit, int count, g'))"

text \<open>
  \<^verbatim>\<open>Plan::reuse_step\<close>: for every step that may come before the open condition,
  a link from each of its effects among the achievers that may come before it.
\<close>

fun reuse_effects ::
  "('o, 'b) env \<Rightarrow> ('o, 'b) plan \<Rightarrow> ('o, 'b) plan list \<Rightarrow> literal_t \<Rightarrow> open_condition \<Rightarrow>
   step \<Rightarrow> (action \<times> effect) list \<Rightarrow> globals \<Rightarrow> error + (('o, 'b) plan list \<times> globals)" where
  "reuse_effects env p plans lit open_cond stp [] g = Inr (plans, g)"
| "reuse_effects env p plans lit open_cond stp ((act, eff) # rest) g =
     (if possibly_before env (orderings p) (s_id stp) (end_time_effect env eff)
           (oc_step_id open_cond) (start_time env (oc_when open_cond))
      then (case new_link env p plans stp eff lit open_cond False g of
              Inl e \<Rightarrow> Inl e
            | Inr (n, plans', g') \<Rightarrow> reuse_effects env p plans' lit open_cond stp rest g')
      else reuse_effects env p plans lit open_cond stp rest g)"

fun reuse_steps ::
  "('o, 'b) env \<Rightarrow> ('o, 'b) plan \<Rightarrow> ('o, 'b) plan list \<Rightarrow> literal_t \<Rightarrow> open_condition \<Rightarrow>
   (action \<times> effect) list \<Rightarrow> step list \<Rightarrow> globals \<Rightarrow> error + (('o, 'b) plan list \<times> globals)" where
  "reuse_steps env p plans lit open_cond achievers [] g = Inr (plans, g)"
| "reuse_steps env p plans lit open_cond achievers (stp # rest) g =
     (if possibly_before env (orderings p) (s_id stp) StepTime_AT_START
           (oc_step_id open_cond) (start_time env (oc_when open_cond))
      then (case reuse_effects env p plans lit open_cond stp
                   (filter (\<lambda>(act, eff). act = s_action stp) achievers) g of
              Inl e \<Rightarrow> Inl e
            | Inr (plans', g') \<Rightarrow> reuse_steps env p plans' lit open_cond achievers rest g')
      else reuse_steps env p plans lit open_cond achievers rest g)"

definition reuse_step ::
  "('o, 'b) env \<Rightarrow> ('o, 'b) plan \<Rightarrow> ('o, 'b) plan list \<Rightarrow> literal_t \<Rightarrow> open_condition \<Rightarrow>
   (action \<times> effect) list \<Rightarrow> globals \<Rightarrow> error + (('o, 'b) plan list \<times> globals)" where
  "reuse_step env p plans lit open_cond achievers g =
     reuse_steps env p plans lit open_cond achievers (steps p) g"

subsection \<open>Expansion of composite steps\<close>

text \<open>
  Modelled from the spec: the class \<^verbatim>\<open>DecompositionFrame\<close> that \<^verbatim>\<open>plans.cc\<close> uses
  (\<^verbatim>\<open>decompositions.h\<close>, and a newer version of the frame than the one declared
  in \<^verbatim>\<open>plans.h\<close>) is not part of the sources at hand.  A frame is instantiated
  from a decomposition by cloning its pseudo-steps, bindings, orderings and
  links; \<^verbatim>\<open>swap_steps\<close> replaces a pseudo-step by a step of the plan and rewrites
  all internal references to its id (bindings, orderings, links, the ids of the
  dummy initial and final steps), as section 4.6 of the specification says;
  \<^verbatim>\<open>incoming_links\<close> are the links of a list that end in a step.
\<close>

definition DecompositionFrame :: "decomposition \<Rightarrow> decomposition_frame" where
  "DecompositionFrame d =
     \<lparr>f_decomposition = d, f_steps = d_pseudo_steps d,
      f_binding_list = d_binding_list d, f_ordering_list = d_ordering_list d,
      f_link_list = d_link_list d,
      f_dummy_initial_step_id = d_dummy_initial_step_id d,
      f_dummy_final_step_id = d_dummy_final_step_id d\<rparr>"

definition rename_id :: "nat \<Rightarrow> nat \<Rightarrow> nat \<Rightarrow> nat" where
  "rename_id old new i = (if i = old then new else i)"

definition swap_steps :: "step \<Rightarrow> step \<Rightarrow> decomposition_frame \<Rightarrow> decomposition_frame" where
  "swap_steps old_step new_step fr =
     (let r = rename_id (s_id old_step) (s_id new_step)
      in fr\<lparr>f_steps := map (\<lambda>s. if s = old_step then new_step else s) (f_steps fr),
             f_binding_list := map (\<lambda>b. b\<lparr>b_var_id := r (b_var_id b),
                                              b_term_id := r (b_term_id b)\<rparr>) (f_binding_list fr),
             f_ordering_list := map (\<lambda>x. x\<lparr>before_id := r (before_id x),
                                               after_id := r (after_id x)\<rparr>) (f_ordering_list fr),
             f_link_list := map (\<lambda>l. l\<lparr>l_from_id := r (l_from_id l),
                                           l_to_id := r (l_to_id l)\<rparr>) (f_link_list fr),
             f_dummy_initial_step_id := r (f_dummy_initial_step_id fr),
             f_dummy_final_step_id := r (f_dummy_final_step_id fr)\<rparr>)"

definition incoming_links :: "link list \<Rightarrow> nat \<Rightarrow> link list" where
  "incoming_links ls sid = filter (\<lambda>l. l_to_id l = sid) ls"

text \<open>
  The plan owns an \<^verbatim>\<open>Orderings\<close> and a \<^verbatim>\<open>Bindings\<close> object.  In
  \<^verbatim>\<open>add_decomposition_frame\<close> the pointers \<^verbatim>\<open>new_orderings\<close> and \<^verbatim>\<open>new_bindings\<close>
  start out as \<^verbatim>\<open>orderings_\<close> and \<^verbatim>\<open>bindings_\<close>, and the function deletes what they
  point to: at the label \<^verbatim>\<open>fail\<close>, and whenever a refinement of the orderings
  returns another object.  Nothing keeps it from deleting the objects of the
  plan, so the model keeps track of whether they have been deleted.  Using, or
  deleting again, an object that has been deleted is undefined in the program;
  the model reports it as the error \<open>DeletedObject\<close>.

  Modelled from the spec: \<^verbatim>\<open>orderings.h\<close> and \<^verbatim>\<open>bindings.h\<close> are not part of the
  sources at hand.  \<^verbatim>\<open>Orderings::refine\<close> and \<^verbatim>\<open>Bindings::add\<close> return the object
  itself when there is nothing to add (the program says of \<^verbatim>\<open>refine\<close> that it
  "could return the same thing") and a new object otherwise, so two pointers
  are the same when the objects have the same value.
\<close>

record parent_objects =
  bindings_deleted :: bool
  orderings_deleted :: bool

definition all_alive :: parent_objects where
  "all_alive = \<lparr>bindings_deleted = False, orderings_deleted = False\<rparr>"

text \<open>An object may be used unless it is an object of the plan that has been deleted.\<close>

definition bindings_usable :: "('o, 'b) plan \<Rightarrow> parent_objects \<Rightarrow> 'b \<Rightarrow> bool" where
  "bindings_usable p po b \<longleftrightarrow> \<not> (b = bindings p \<and> bindings_deleted po)"

definition orderings_usable :: "('o, 'b) plan \<Rightarrow> parent_objects \<Rightarrow> 'o \<Rightarrow> bool" where
  "orderings_usable p po ords \<longleftrightarrow> \<not> (ords = orderings p \<and> orderings_deleted po)"

text \<open>\<^verbatim>\<open>delete new_bindings\<close> and \<^verbatim>\<open>delete new_orderings\<close>.\<close>

definition delete_bindings ::
  "('o, 'b) plan \<Rightarrow> parent_objects \<Rightarrow> 'b \<Rightarrow> error + parent_objects" where
  "delete_bindings p po b =
     (if b = bindings p
      then (if bindings_deleted po then Inl DeletedObject
            else Inr (po\<lparr>bindings_deleted := True\<rparr>))
      else Inr po)"

definition delete_orderings ::
  "('o, 'b) plan \<Rightarrow> parent_objects \<Rightarrow> 'o \<Rightarrow> error + parent_objects" where
  "delete_orderings p po ords =
     (if ords = orderings p
      then (if orderings_deleted po then Inl DeletedObject
            else Inr (po\<lparr>orderings_deleted := True\<rparr>))
      else Inr po)"

text \<open>
  The outcome of the loop over the pseudo-steps: it failed (\<^verbatim>\<open>goto fail\<close>),
  leaving the process-wide state as it then is and \<^verbatim>\<open>new_bindings\<close> pointing to
  an object or being \<^verbatim>\<open>NULL\<close>, or it went through.
\<close>

datatype ('a, 'b) outcome = Failed globals "'b option" | Done 'a

text \<open>What the loop over the pseudo-steps changes.\<close>

record 'b install_state =
  is_instance :: decomposition_frame
  is_steps :: "step list"
  is_num_steps :: nat
  is_unexpanded_steps :: "unexpanded_composite_step list"
  is_num_unexpanded_steps :: size_t
  is_open_conds :: "open_condition list"
  is_num_open_conds :: size_t
  is_bindings :: 'b
  is_globals :: globals

text \<open>
  The loop over the pseudo-steps of the frame, for the indices \<open>sis\<close>: a new
  step numbered \<^verbatim>\<open>num_steps() + 1 + si\<close> takes the place of the pseudo-step, a
  composite one is registered as a flaw, its precondition is admitted and the
  bindings that come with it are added.  The bindings that were there before
  are not deleted.
\<close>

fun install_steps ::
  "('o, 'b) env \<Rightarrow> ('o, 'b) plan \<Rightarrow> parent_objects \<Rightarrow> nat \<Rightarrow> nat list \<Rightarrow> 'b install_state \<Rightarrow>
   error + ('b install_state, 'b) outcome" where
  "install_steps env p po base [] s = Inr (Done s)"
| "install_steps env p po base (si # sis) s =
     (let pseudo_step = f_steps (is_instance s) ! si;
          new_step = Step (base + 1 + si) (s_action pseudo_step);
          s1 = s\<lparr>is_instance := swap_steps pseudo_step new_step (is_instance s),
                 is_steps := new_step # is_steps s,
                 is_num_steps := is_num_steps s + 1\<rparr>;
          s2 = (if a_composite (s_action new_step)
                then s1\<lparr>is_unexpanded_steps :=
                           UnexpandedCompositeStep new_step # is_unexpanded_steps s1,
                         is_num_unexpanded_steps := is_num_unexpanded_steps s1 + 1\<rparr>
                else s1)
      in case add_goal env \<lparr>gv_open_conds = is_open_conds s2,
                            gv_num_open_conds = is_num_open_conds s2,
                            gv_new_bindings = [], gv_globals = is_globals s2\<rparr>
                (a_condition (s_action new_step)) (s_id new_step) False of
           Inl e \<Rightarrow> Inl e
         | Inr (goal_is_consistent, st) \<Rightarrow>
             if \<not> goal_is_consistent
             then Inr (Failed (gv_globals st) (Some (is_bindings s2)))
             else if \<not> bindings_usable p po (is_bindings s2) then Inl DeletedObject
             else (case bindings_add env (is_bindings s2) (gv_new_bindings st) False of
                     None \<Rightarrow> Inr (Failed (gv_globals st) None)
                   | Some bnds \<Rightarrow>
                       install_steps env p po base sis
                         (s2\<lparr>is_open_conds := gv_open_conds st,
                             is_num_open_conds := gv_num_open_conds st,
                             is_bindings := bnds,
                             is_globals := gv_globals st\<rparr>)))"

text \<open>
  One refinement of \<^verbatim>\<open>new_orderings\<close>, where \<open>f\<close> is the refinement: the object
  is used; when the refinement fails the result says so (\<open>False\<close>) and the
  pointer stays, when it returns another object the old one is deleted.
\<close>

definition refine_in_place ::
  "('o, 'b) plan \<Rightarrow> ('o \<Rightarrow> 'o option) \<Rightarrow> 'o \<Rightarrow> parent_objects \<Rightarrow>
   error + (bool \<times> 'o \<times> parent_objects)" where
  "refine_in_place p f ords po =
     (if \<not> orderings_usable p po ords then Inl DeletedObject
      else (case f ords of
              None \<Rightarrow> Inr (False, ords, po)
            | Some tmp_orderings \<Rightarrow>
                if tmp_orderings \<noteq> ords
                then (case delete_orderings p po ords of
                        Inl e \<Rightarrow> Inl e
                      | Inr po' \<Rightarrow> Inr (True, tmp_orderings, po'))
                else Inr (True, ords, po)))"

text \<open>
  The orderings of the expansion.  First the dummy final step of the frame
  comes before every step that the composite step contributes to.
\<close>

fun order_contributions ::
  "('o, 'b) env \<Rightarrow> ('o, 'b) plan \<Rightarrow> decomposition_frame \<Rightarrow> step \<Rightarrow> 'b \<Rightarrow> nat list \<Rightarrow>
   'o \<Rightarrow> parent_objects \<Rightarrow> error + (bool \<times> 'o \<times> parent_objects)" where
  "order_contributions env p inst dummy_goal_step bnds [] ords po = Inr (True, ords, po)"
| "order_contributions env p inst dummy_goal_step bnds (i # ids) ords po =
     (case refine_in_place p
             (\<lambda>new_orderings. refine_step env new_orderings
                (Ordering (f_dummy_final_step_id inst) StepTime_AT_END i StepTime_AT_START)
                dummy_goal_step (if ground_actions env then None else Some bnds))
             ords po of
        Inl e \<Rightarrow> Inl e
      | Inr (False, ords', po') \<Rightarrow> Inr (False, ords', po')
      | Inr (True, ords', po') \<Rightarrow>
          order_contributions env p inst dummy_goal_step bnds ids ords' po')"

text \<open>
  Then every step of the frame comes after the steps its incoming links start
  from; \<open>sls\<close> are the pairs of a step and one of its incoming links.  The
  ancestor is looked up in the vector of steps by the difference of its id and
  the id of the first step.
\<close>

fun order_ancestors ::
  "('o, 'b) env \<Rightarrow> ('o, 'b) plan \<Rightarrow> decomposition_frame \<Rightarrow> step \<Rightarrow> 'b \<Rightarrow> (step \<times> link) list \<Rightarrow>
   'o \<Rightarrow> parent_objects \<Rightarrow> error + (bool \<times> 'o \<times> parent_objects)" where
  "order_ancestors env p inst dummy_goal_step bnds [] ords po = Inr (True, ords, po)"
| "order_ancestors env p inst dummy_goal_step bnds ((stp, incoming_link) # sls) ords po =
     (let ancestor_id = l_from_id incoming_link
      in if ancestor_id < s_id dummy_goal_step
            \<or> ancestor_id - s_id dummy_goal_step \<ge> length (f_steps inst)
         then Inl OutOfRange
         else (let ancestor_step = f_steps inst ! (ancestor_id - s_id dummy_goal_step)
               in case refine_in_place p
                         (\<lambda>new_orderings. refine_step env new_orderings
                            (Ordering ancestor_id StepTime_AT_END (s_id stp) StepTime_AT_START)
                            ancestor_step (if ground_actions env then None else Some bnds))
                         ords po of
                    Inl e \<Rightarrow> Inl e
                  | Inr (False, ords', po') \<Rightarrow> Inr (False, ords', po')
                  | Inr (True, ords', po') \<Rightarrow>
                      order_ancestors env p inst dummy_goal_step bnds sls ords' po'))"

text \<open>Last the orderings that the decomposition states.\<close>

fun order_explicit ::
  "('o, 'b) env \<Rightarrow> ('o, 'b) plan \<Rightarrow> ordering list \<Rightarrow> 'o \<Rightarrow> parent_objects \<Rightarrow>
   error + (bool \<times> 'o \<times> parent_objects)" where
  "order_explicit env p [] ords po = Inr (True, ords, po)"
| "order_explicit env p (x # xs) ords po =
     (case refine_in_place p (\<lambda>new_orderings. refine env new_orderings x) ords po of
        Inl e \<Rightarrow> Inl e
      | Inr (False, ords', po') \<Rightarrow> Inr (False, ords', po')
      | Inr (True, ords', po') \<Rightarrow> order_explicit env p xs ords' po')"

definition install_orderings ::
  "('o, 'b) env \<Rightarrow> ('o, 'b) plan \<Rightarrow> parent_objects \<Rightarrow> unexpanded_composite_step \<Rightarrow>
   decomposition_frame \<Rightarrow> 'b \<Rightarrow> error + (bool \<times> 'o \<times> parent_objects)" where
  "install_orderings env p po unexpanded inst bnds =
     (let step_ids_parent_contributes_to =
            map l_to_id (filter (\<lambda>l. l_from_id l = ucs_step_id unexpanded) (links p))
      in case f_steps inst of
           [] \<Rightarrow> Inl OutOfRange
         | dummy_goal_step # others \<Rightarrow>
             (case order_contributions env p inst dummy_goal_step bnds
                     step_ids_parent_contributes_to (orderings p) po of
                Inl e \<Rightarrow> Inl e
              | Inr (False, ords1, po1) \<Rightarrow> Inr (False, ords1, po1)
              | Inr (True, ords1, po1) \<Rightarrow>
                  (case order_ancestors env p inst dummy_goal_step bnds
                          (concat (map (\<lambda>stp. map (\<lambda>l. (stp, l))
                                                (incoming_links (f_link_list inst) (s_id stp)))
                                       (f_steps inst)))
                          ords1 po1 of
                     Inl e \<Rightarrow> Inl e
                   | Inr (False, ords2, po2) \<Rightarrow> Inr (False, ords2, po2)
                   | Inr (True, ords2, po2) \<Rightarrow>
                       order_explicit env p (f_ordering_list inst) ords2 po2)))"

text \<open>
  The counters \<^verbatim>\<open>new_num_links\<close> and \<^verbatim>\<open>new_num_decomposition_frames\<close> of the
  expansion are \<^verbatim>\<open>int\<close> variables: a count passes through 32 bits on its way.
\<close>

definition through_int :: "size_t \<Rightarrow> nat \<Rightarrow> size_t" where
  "through_int n k = scast ((ucast n :: 32 word) + of_nat k)"

text \<open>
  The label \<^verbatim>\<open>fail\<close>: \<^verbatim>\<open>new_bindings\<close>, unless it is \<^verbatim>\<open>NULL\<close>, and \<^verbatim>\<open>new_orderings\<close>
  are deleted, and no plan is added.
\<close>

definition expansion_failed ::
  "('o, 'b) plan \<Rightarrow> ('o, 'b) plan list \<Rightarrow> globals \<Rightarrow> parent_objects \<Rightarrow> 'b option \<Rightarrow> 'o \<Rightarrow>
   error + (('o, 'b) plan list \<times> globals \<times> parent_objects)" where
  "expansion_failed p plans g po new_bindings new_orderings =
     (case (case new_bindings of
              None \<Rightarrow> Inr po
            | Some b \<Rightarrow> delete_bindings p po b) of
        Inl e \<Rightarrow> Inl e
      | Inr po1 \<Rightarrow>
          (case delete_orderings p po1 new_orderings of
             Inl e \<Rightarrow> Inl e
           | Inr po2 \<Rightarrow> Inr (plans, g, po2)))"

text \<open>
  \<^verbatim>\<open>Plan::add_decomposition_frame\<close>; \<open>po\<close> says which objects of the plan have been
  deleted.  The decomposition link and the chain of frames receive copies of
  the frame as it is instantiated, before its steps are installed.  The links
  of the frame are added without looking for threats.  The constructor of the
  successor registers a use of the orderings and of the bindings.  Nothing is
  added to the plans when the expansion fails; the number the function returns
  is not used by its caller.
\<close>

definition add_decomposition_frame ::
  "('o, 'b) env \<Rightarrow> ('o, 'b) plan \<Rightarrow> ('o, 'b) plan list \<Rightarrow> unexpanded_composite_step \<Rightarrow>
   decomposition \<Rightarrow> globals \<Rightarrow> parent_objects \<Rightarrow>
   error + (('o, 'b) plan list \<times> globals \<times> parent_objects)" where
  "add_decomposition_frame env p plans unexpanded expansion g po =
     (let instance0 = DecompositionFrame expansion;
          new_decomposition_links =
            DecompositionLink (ucs_step_id unexpanded) instance0 # decomposition_links p;
          new_num_decomposition_links = num_decomposition_links p + 1;
          new_decomposition_frames = instance0 # decomposition_frames p;
          new_num_decomposition_frames = through_int (num_decomposition_frames p + 1) 0
      in case install_steps env p po (num_steps p) [0 ..< length (f_steps instance0)]
                \<lparr>is_instance = instance0, is_steps = steps p, is_num_steps = num_steps p,
                 is_unexpanded_steps = unexpanded_steps p,
                 is_num_unexpanded_steps = num_unexpanded_steps p,
                 is_open_conds = open_conds p, is_num_open_conds = num_open_conds p,
                 is_bindings = bindings p, is_globals = g\<rparr> of
           Inl e \<Rightarrow> Inl e
         | Inr (Failed g' new_bindings) \<Rightarrow>
             expansion_failed p plans g' po new_bindings (orderings p)
         | Inr (Done s) \<Rightarrow>
             if \<not> bindings_usable p po (is_bindings s) then Inl DeletedObject
             else
             (case bindings_add env (is_bindings s) (f_binding_list (is_instance s)) False of
                None \<Rightarrow> expansion_failed p plans (is_globals s) po None (orderings p)
              | Some new_bindings \<Rightarrow>
                  (case install_orderings env p po unexpanded (is_instance s) new_bindings of
                     Inl e \<Rightarrow> Inl e
                   | Inr (False, new_orderings, po1) \<Rightarrow>
                       expansion_failed p plans (is_globals s) po1 (Some new_bindings)
                         new_orderings
                   | Inr (True, new_orderings, po1) \<Rightarrow>
                       (let new_links = rev (f_link_list (is_instance s)) @ links p;
                            new_num_links =
                              through_int (num_links p) (length (f_link_list (is_instance s)))
                        in case chain_remove unexpanded (is_unexpanded_steps s) of
                             Inl e \<Rightarrow> Inl e
                           | Inr new_unexpanded_steps \<Rightarrow>
                               if \<not> orderings_usable p po1 new_orderings
                                  \<or> \<not> bindings_usable p po1 new_bindings
                               then Inl DeletedObject
                               else
                               Inr (plans @ [Plan (is_steps s) (is_num_steps s)
                                      new_links new_num_links
                                      new_orderings new_bindings
                                      new_decomposition_frames new_num_decomposition_frames
                                      new_decomposition_links new_num_decomposition_links
                                      (unsafes p) (num_unsafes p)
                                      (is_open_conds s) (is_num_open_conds s)
                                      new_unexpanded_steps (is_num_unexpanded_steps s - 1)
                                      (mutex_threats p)],
                                    is_globals s, po1)))))"

text \<open>
  \<^verbatim>\<open>Plan::handle_unexpanded_composite_step\<close>: one expansion for every
  decomposition that the multimap of composite achievers holds for the action
  of the step, all of them from the same plan.
\<close>

fun add_decomposition_frames ::
  "('o, 'b) env \<Rightarrow> ('o, 'b) plan \<Rightarrow> ('o, 'b) plan list \<Rightarrow> unexpanded_composite_step \<Rightarrow>
   decomposition list \<Rightarrow> globals \<Rightarrow> parent_objects \<Rightarrow>
   error + (('o, 'b) plan list \<times> globals \<times> parent_objects)" where
  "add_decomposition_frames env p plans unexpanded [] g po = Inr (plans, g, po)"
| "add_decomposition_frames env p plans unexpanded (d # ds) g po =
     (case add_decomposition_frame env p plans unexpanded d g po of
        Inl e \<Rightarrow> Inl e
      | Inr (plans', g', po') \<Rightarrow> add_decomposition_frames env p plans' unexpanded ds g' po')"

definition applicable_decompositions ::
  "('o, 'b) env \<Rightarrow> unexpanded_composite_step \<Rightarrow> decomposition list" where
  "applicable_decompositions env unexpanded =
     map snd (filter (\<lambda>(act, d). act = ucs_step_action unexpanded) (achieves_composite env))"

definition handle_unexpanded_composite_step ::
  "('o, 'b) env \<Rightarrow> ('o, 'b) plan \<Rightarrow> ('o, 'b) plan list \<Rightarrow> unexpanded_composite_step \<Rightarrow> globals \<Rightarrow>
   parent_objects \<Rightarrow> error + (('o, 'b) plan list \<times> globals \<times> parent_objects)" where
  "handle_unexpanded_composite_step env p plans unexpanded g po =
     add_decomposition_frames env p plans unexpanded
       (applicable_decompositions env unexpanded) g po"

subsection \<open>Repair of open conditions: disjunctions and the closed world\<close>

text \<open>\<^verbatim>\<open>Plan::handle_disjunction\<close>: one successor for every disjunct that can be admitted.\<close>

fun handle_disjuncts ::
  "('o, 'b) env \<Rightarrow> ('o, 'b) plan \<Rightarrow> open_condition \<Rightarrow> bool \<Rightarrow> formula list \<Rightarrow> nat \<Rightarrow>
   ('o, 'b) plan list \<Rightarrow> globals \<Rightarrow> error + (nat \<times> ('o, 'b) plan list \<times> globals)" where
  "handle_disjuncts env p open_cond test_only [] count plans g = Inr (count, plans, g)"
| "handle_disjuncts env p open_cond test_only (f # fs) count plans g =
     (case (if test_only then Inr [] else chain_remove open_cond (open_conds p)) of
        Inl e \<Rightarrow> Inl e
      | Inr new_open_conds \<Rightarrow>
          (case add_goal env \<lparr>gv_open_conds = new_open_conds,
                               gv_num_open_conds = (if test_only then 0 else num_open_conds p - 1),
                               gv_new_bindings = [], gv_globals = g\<rparr>
                  f (oc_step_id open_cond) test_only of
             Inl e \<Rightarrow> Inl e
           | Inr (added, st) \<Rightarrow>
               if \<not> added
               then handle_disjuncts env p open_cond test_only fs count plans (gv_globals st)
               else (case bindings_add env (bindings p) (gv_new_bindings st) test_only of
                       None \<Rightarrow>
                         handle_disjuncts env p open_cond test_only fs count plans (gv_globals st)
                     | Some bnds \<Rightarrow>
                         handle_disjuncts env p open_cond test_only fs (count + 1)
                           (if \<not> test_only
                            then plans @ [Plan (steps p) (num_steps p) (links p) (num_links p)
                                   (orderings p) bnds
                                   (decomposition_frames p) (num_decomposition_frames p)
                                   (decomposition_links p) (num_decomposition_links p)
                                   (unsafes p) (num_unsafes p)
                                   (gv_open_conds st) (gv_num_open_conds st)
                                   (unexpanded_steps p) (num_unexpanded_steps p)
                                   (mutex_threats p)]
                            else plans)
                           (gv_globals st))))"

definition handle_disjunction ::
  "('o, 'b) env \<Rightarrow> ('o, 'b) plan \<Rightarrow> ('o, 'b) plan list \<Rightarrow> formula list \<Rightarrow> open_condition \<Rightarrow>
   bool \<Rightarrow> globals \<Rightarrow> error + (nat \<times> ('o, 'b) plan list \<times> globals)" where
  "handle_disjunction env p plans disjuncts open_cond test_only g =
     handle_disjuncts env p open_cond test_only disjuncts 0 plans g"

text \<open>
  The goal of \<^verbatim>\<open>new_cw_link\<close>: for every effect of the initial step that unifies
  with the atom, one of the bindings of the unifier must not hold; \<open>None\<close> when
  an effect unifies with the empty unifier.
\<close>

fun cw_goals ::
  "('o, 'b) env \<Rightarrow> 'b \<Rightarrow> atom \<Rightarrow> nat \<Rightarrow> effect list \<Rightarrow> formula \<Rightarrow> formula option" where
  "cw_goals env bnds goal step_id [] goals = Some goals"
| "cw_goals env bnds goal step_id (eff # effs) goals =
     (case unify env bnds (e_literal eff) 0 (Atom goal) step_id of
        None \<Rightarrow> cw_goals env bnds goal step_id effs goals
      | Some mgu \<Rightarrow>
          if mgu = [] then None
          else cw_goals env bnds goal step_id effs
                 (formula_and env goals
                    (fold (\<lambda>subst binds.
                             formula_or env binds
                               (make_inequality env (b_var subst) (b_var_id subst)
                                  (b_term subst) (b_term_id subst)))
                          mgu Contradiction)))"

text \<open>\<^verbatim>\<open>Plan::new_cw_link\<close>: a link from the initial step by the closed world assumption.\<close>

definition new_cw_link ::
  "('o, 'b) env \<Rightarrow> ('o, 'b) plan \<Rightarrow> ('o, 'b) plan list \<Rightarrow> effect list \<Rightarrow> atom \<Rightarrow>
   open_condition \<Rightarrow> bool \<Rightarrow> globals \<Rightarrow> error + (nat \<times> ('o, 'b) plan list \<times> globals)" where
  "new_cw_link env p plans effs negated_atom open_cond test_only g =
     (case cw_goals env (bindings p) negated_atom (oc_step_id open_cond) effs Tautology of
        None \<Rightarrow> Inr (0, plans, g)
      | Some goals \<Rightarrow>
          (case (if test_only then Inr [] else chain_remove open_cond (open_conds p)) of
             Inl e \<Rightarrow> Inl e
           | Inr new_open_conds \<Rightarrow>
               (case add_goal env \<lparr>gv_open_conds = new_open_conds,
                                    gv_num_open_conds =
                                      (if test_only then 0 else num_open_conds p - 1),
                                    gv_new_bindings = [], gv_globals = g\<rparr>
                       goals 0 test_only of
                  Inl e \<Rightarrow> Inl e
                | Inr (added, st) \<Rightarrow>
                    if \<not> added then Inr (0, plans, gv_globals st)
                    else (case bindings_add env (bindings p) (gv_new_bindings st) test_only of
                            None \<Rightarrow> Inr (0, plans, gv_globals st)
                          | Some bnds \<Rightarrow>
                              if test_only then Inr (1, plans, gv_globals st)
                              else
                                (let new_links = Link 0 StepTime_AT_END open_cond # links p;
                                     (new_unsafes, new_num_unsafes) =
                                       link_threats env (unsafes p, num_unsafes p) (hd new_links)
                                         (steps p) (orderings p) bnds
                                 in Inr (1,
                                      plans @ [Plan (steps p) (num_steps p)
                                        new_links (num_links p + 1)
                                        (orderings p) bnds
                                        (decomposition_frames p) (num_decomposition_frames p)
                                        (decomposition_links p) (num_decomposition_links p)
                                        new_unsafes new_num_unsafes
                                        (gv_open_conds st) (gv_num_open_conds st)
                                        (unexpanded_steps p) (num_unexpanded_steps p)
                                        (mutex_threats p)],
                                      gv_globals st))))))"

text \<open>
  \<^verbatim>\<open>Plan::handle_open_condition\<close>.  The three kinds of open conditions are the
  three constructors, so the error for an unknown kind cannot arise.
\<close>

fun handle_open_condition ::
  "('o, 'b) env \<Rightarrow> ('o, 'b) plan \<Rightarrow> ('o, 'b) plan list \<Rightarrow> open_condition \<Rightarrow> globals \<Rightarrow>
   error + (('o, 'b) plan list \<times> globals)" where
  "handle_open_condition env p plans (OpenCondition sid lit w) g =
     (case (case literal_achievers env lit of
              None \<Rightarrow> Inr (plans, g)
            | Some achievers \<Rightarrow>
                (case add_step env p plans lit (OpenCondition sid lit w) achievers g of
                   Inl e \<Rightarrow> Inl e
                 | Inr (plans1, g1) \<Rightarrow>
                     reuse_step env p plans1 lit (OpenCondition sid lit w) achievers g1)) of
        Inl e \<Rightarrow> Inl e
      | Inr (plans2, g2) \<Rightarrow>
          (case lit of
             Negation a \<Rightarrow>
               (case new_cw_link env p plans2 (a_effects (init_action env)) a
                       (OpenCondition sid lit w) False g2 of
                  Inl e \<Rightarrow> Inl e
                | Inr (n, plans3, g3) \<Rightarrow> Inr (plans3, g3))
           | Atom a \<Rightarrow> Inr (plans2, g2)))"
| "handle_open_condition env p plans (OpenConditionDisj sid disjuncts) g =
     (case handle_disjunction env p plans disjuncts (OpenConditionDisj sid disjuncts) False g of
        Inl e \<Rightarrow> Inl e
      | Inr (n, plans', g') \<Rightarrow> Inr (plans', g'))"
| "handle_open_condition env p plans (OpenConditionNeq sid v i1 t i2) g =
     (case handle_inequality env p plans v i1 t i2 (OpenConditionNeq sid v i1 t i2) False of
        Inl e \<Rightarrow> Inl e
      | Inr (n, plans') \<Rightarrow> Inr (plans', g))"

subsection \<open>Repair of mutex threats\<close>

text \<open>
  The static function \<^verbatim>\<open>mutex_threats\<close>: the pairs of an effect of the step and
  an effect of a possibly concurrent step whose atoms unify.  The four flags
  say which ends of the two steps may coincide.
\<close>

definition effects_may_coincide ::
  "bool \<times> bool \<times> bool \<times> bool \<Rightarrow> effect \<Rightarrow> effect \<Rightarrow> bool" where
  "effects_may_coincide flags e e2 =
     (case flags of (ss, se, es, ee) \<Rightarrow>
        if e_when e = Effect_AT_START
        then (if e_when e2 = Effect_AT_START then ss else se)
        else (if e_when e2 = Effect_AT_START then es else ee))"

definition effect_may_coincide :: "bool \<times> bool \<times> bool \<times> bool \<Rightarrow> effect \<Rightarrow> bool" where
  "effect_may_coincide flags e =
     (case flags of (ss, se, es, ee) \<Rightarrow>
        if e_when e = Effect_AT_START then ss \<or> se else es \<or> ee)"

definition find_mutex_threats ::
  "('o, 'b) env \<Rightarrow> mutex_threat list \<Rightarrow> step \<Rightarrow> step list \<Rightarrow> 'o \<Rightarrow> 'b \<Rightarrow> mutex_threat list" where
  "find_mutex_threats env acc stp stps ords bnds =
     fold (\<lambda>s acc1.
             case possibly_concurrent env ords (s_id stp) (s_id s) of
               None \<Rightarrow> acc1
             | Some flags \<Rightarrow>
                 fold (\<lambda>e acc2.
                         if \<not> effect_may_coincide flags e then acc2
                         else fold (\<lambda>e2 acc3.
                                      if effects_may_coincide flags e e2
                                         \<and> unify env bnds (Atom (literal_atom (e_literal e)))
                                              (s_id stp)
                                              (Atom (literal_atom (e_literal e2))) (s_id s)
                                             \<noteq> None
                                      then MutexThreat (s_id stp) e (s_id s) e2 # acc3
                                      else acc3)
                                   (a_effects (s_action s)) acc2)
                      (a_effects (s_action stp)) acc1)
          stps acc"

text \<open>The successor of a mutex threat repair: only the named parts differ from the plan.\<close>

definition mutex_successor ::
  "('o, 'b) plan \<Rightarrow> 'o \<Rightarrow> 'b \<Rightarrow> open_condition list \<Rightarrow> size_t \<Rightarrow> mutex_threat list \<Rightarrow>
   ('o, 'b) plan" where
  "mutex_successor p new_orderings bnds new_open_conds new_num_open_conds new_mutex_threats =
     Plan (steps p) (num_steps p) (links p) (num_links p)
       new_orderings bnds
       (decomposition_frames p) (num_decomposition_frames p)
       (decomposition_links p) (num_decomposition_links p)
       (unsafes p) (num_unsafes p)
       new_open_conds new_num_open_conds
       (unexpanded_steps p) (num_unexpanded_steps p)
       new_mutex_threats"

text \<open>
  The first part of \<^verbatim>\<open>separate\<close> for a mutex threat: with a unifier that is not
  empty, the inequalities that undo it are admitted as a goal of step 0.
\<close>

definition separate_mutex_bindings ::
  "('o, 'b) env \<Rightarrow> ('o, 'b) plan \<Rightarrow> ('o, 'b) plan list \<Rightarrow> mutex_threat \<Rightarrow> effect \<Rightarrow> effect \<Rightarrow>
   binding_t list \<Rightarrow> globals \<Rightarrow> error + (('o, 'b) plan list \<times> globals)" where
  "separate_mutex_bindings env p plans mt e1 e2 unifier g =
     (if unifier \<noteq> []
      then (let goal = separation_bindings_goal env (bindings p)
                         (\<lambda>v. quantifies env e1 v \<or> quantifies env e2 v) unifier
            in case add_goal env \<lparr>gv_open_conds = open_conds p,
                                   gv_num_open_conds = num_open_conds p,
                                   gv_new_bindings = [], gv_globals = g\<rparr> goal 0 False of
                 Inl e \<Rightarrow> Inl e
               | Inr (added, st) \<Rightarrow>
                   if \<not> added then Inr (plans, gv_globals st)
                   else (case bindings_add env (bindings p) (gv_new_bindings st) False of
                           None \<Rightarrow> Inr (plans, gv_globals st)
                         | Some bnds \<Rightarrow>
                             (case chain_remove mt (mutex_threats p) of
                                Inl e \<Rightarrow> Inl e
                              | Inr new_mutex_threats \<Rightarrow>
                                  Inr (plans @ [mutex_successor p (orderings p) bnds
                                                  (gv_open_conds st) (gv_num_open_conds st)
                                                  new_mutex_threats],
                                       gv_globals st))))
      else Inr (plans, g))"

text \<open>
  The second part, for one of the two effects: the negation of its condition
  is admitted as a goal of its step.
\<close>

definition separate_mutex_condition ::
  "('o, 'b) env \<Rightarrow> ('o, 'b) plan \<Rightarrow> ('o, 'b) plan list \<Rightarrow> mutex_threat \<Rightarrow> nat \<Rightarrow> effect \<Rightarrow>
   globals \<Rightarrow> error + (('o, 'b) plan list \<times> globals)" where
  "separate_mutex_condition env p plans mt step_id eff g =
     (if \<not> tautology (e_condition eff)
      then (let (goal, g1) = negated_condition_goal env eff False g
            in case add_goal env \<lparr>gv_open_conds = open_conds p,
                                   gv_num_open_conds = num_open_conds p,
                                   gv_new_bindings = [], gv_globals = g1\<rparr>
                      goal step_id False of
                 Inl e \<Rightarrow> Inl e
               | Inr (added, st) \<Rightarrow>
                   if \<not> added then Inr (plans, gv_globals st)
                   else (case bindings_add env (bindings p) (gv_new_bindings st) False of
                           None \<Rightarrow> Inr (plans, gv_globals st)
                         | Some bnds \<Rightarrow>
                             (case refine_by_goal env (orderings p) goal step_id bnds of
                                None \<Rightarrow> Inr (plans, gv_globals st)
                              | Some new_orderings \<Rightarrow>
                                  (case chain_remove mt (mutex_threats p) of
                                     Inl e \<Rightarrow> Inl e
                                   | Inr new_mutex_threats \<Rightarrow>
                                       Inr (plans @ [mutex_successor p new_orderings bnds
                                                       (gv_open_conds st) (gv_num_open_conds st)
                                                       new_mutex_threats],
                                            gv_globals st)))))
      else Inr (plans, g))"

definition separate_mutex ::
  "('o, 'b) env \<Rightarrow> ('o, 'b) plan \<Rightarrow> ('o, 'b) plan list \<Rightarrow> mutex_threat \<Rightarrow> effect \<Rightarrow> effect \<Rightarrow>
   binding_t list \<Rightarrow> globals \<Rightarrow> error + (('o, 'b) plan list \<times> globals)" where
  "separate_mutex env p plans mt e1 e2 unifier g =
     (case separate_mutex_bindings env p plans mt e1 e2 unifier g of
        Inl e \<Rightarrow> Inl e
      | Inr (plans1, g1) \<Rightarrow>
          (case separate_mutex_condition env p plans1 mt (m_step_id1 mt) e1 g1 of
             Inl e \<Rightarrow> Inl e
           | Inr (plans2, g2) \<Rightarrow>
               separate_mutex_condition env p plans2 mt (m_step_id2 mt) e2 g2))"

text \<open>\<^verbatim>\<open>Plan::new_ordering\<close>, \<^verbatim>\<open>Plan::demote\<close> and \<^verbatim>\<open>Plan::promote\<close> for a mutex threat.\<close>

definition new_ordering_mutex ::
  "('o, 'b) env \<Rightarrow> ('o, 'b) plan \<Rightarrow> ('o, 'b) plan list \<Rightarrow> nat \<Rightarrow> step_time \<Rightarrow> nat \<Rightarrow> step_time \<Rightarrow>
   mutex_threat \<Rightarrow> error + ('o, 'b) plan list" where
  "new_ordering_mutex env p plans before_id' t1 after_id' t2 mt =
     (case refine env (orderings p) (Ordering before_id' t1 after_id' t2) of
        None \<Rightarrow> Inr plans
      | Some new_orderings \<Rightarrow>
          (case chain_remove mt (mutex_threats p) of
             Inl e \<Rightarrow> Inl e
           | Inr new_mutex_threats \<Rightarrow>
               Inr (plans @ [mutex_successor p new_orderings (bindings p)
                               (open_conds p) (num_open_conds p) new_mutex_threats])))"

definition demote_mutex ::
  "('o, 'b) env \<Rightarrow> ('o, 'b) plan \<Rightarrow> ('o, 'b) plan list \<Rightarrow> mutex_threat \<Rightarrow> effect \<Rightarrow> effect \<Rightarrow>
   error + ('o, 'b) plan list" where
  "demote_mutex env p plans mt e1 e2 =
     (let id1 = m_step_id1 mt; et1 = end_time_effect env e1;
          id2 = m_step_id2 mt; et2 = end_time_effect env e2
      in if possibly_before env (orderings p) id1 et1 id2 et2
         then new_ordering_mutex env p plans id1 et1 id2 et2 mt
         else Inr plans)"

definition promote_mutex ::
  "('o, 'b) env \<Rightarrow> ('o, 'b) plan \<Rightarrow> ('o, 'b) plan list \<Rightarrow> mutex_threat \<Rightarrow> effect \<Rightarrow> effect \<Rightarrow>
   error + ('o, 'b) plan list" where
  "promote_mutex env p plans mt e1 e2 =
     (let id1 = m_step_id1 mt; et1 = end_time_effect env e1;
          id2 = m_step_id2 mt; et2 = end_time_effect env e2
      in if possibly_before env (orderings p) id2 et2 id1 et1
         then new_ordering_mutex env p plans id2 et2 id1 et1 mt
         else Inr plans)"

text \<open>
  \<^verbatim>\<open>Plan::handle_mutex_threat\<close>.  The place holder (first step id 0) is replaced
  by the mutex threats of all pairs of steps.  A threat without effects other
  than the place holder would make the program dereference \<^verbatim>\<open>NULL\<close>.
\<close>

definition handle_mutex_threat ::
  "('o, 'b) env \<Rightarrow> ('o, 'b) plan \<Rightarrow> ('o, 'b) plan list \<Rightarrow> mutex_threat \<Rightarrow> globals \<Rightarrow>
   error + (('o, 'b) plan list \<times> globals)" where
  "handle_mutex_threat env p plans mt g =
     (if m_step_id1 mt = 0
      then (let new_mutex_threats =
                  fold (\<lambda>s acc. find_mutex_threats env acc s (steps p) (orderings p) (bindings p))
                       (steps p) []
            in Inr (plans @ [mutex_successor p (orderings p) (bindings p)
                               (open_conds p) (num_open_conds p) new_mutex_threats], g))
      else (case (m_effect1 mt, m_effect2 mt) of
              (Some e1, Some e2) \<Rightarrow>
                (let id1 = m_step_id1 mt; et1 = end_time_effect env e1;
                     id2 = m_step_id2 mt; et2 = end_time_effect env e2
                 in case (if possibly_not_before env (orderings p) id1 et1 id2 et2
                             \<and> possibly_not_after env (orderings p) id1 et1 id2 et2
                          then unify env (bindings p) (Atom (literal_atom (e_literal e1))) id1
                                 (Atom (literal_atom (e_literal e2))) id2
                          else None) of
                      Some unifier \<Rightarrow>
                        (case separate_mutex env p plans mt e1 e2 unifier g of
                           Inl e \<Rightarrow> Inl e
                         | Inr (plans1, g1) \<Rightarrow>
                             (case promote_mutex env p plans1 mt e1 e2 of
                                Inl e \<Rightarrow> Inl e
                              | Inr plans2 \<Rightarrow>
                                  (case demote_mutex env p plans2 mt e1 e2 of
                                     Inl e \<Rightarrow> Inl e
                                   | Inr plans3 \<Rightarrow> Inr (plans3, g1))))
                    | None \<Rightarrow>
                        (case chain_remove mt (mutex_threats p) of
                           Inl e \<Rightarrow> Inl e
                         | Inr new_mutex_threats \<Rightarrow>
                             Inr (plans @ [mutex_successor p (orderings p) (bindings p)
                                             (open_conds p) (num_open_conds p)
                                             new_mutex_threats], g)))
            | _ \<Rightarrow> Inl NullPointer))"

subsection \<open>The refinements of a plan\<close>

text \<open>
  A flaw is one of four kinds.  \<^verbatim>\<open>Plan::refinements\<close> hands the flaw that the
  flaw selection order has chosen to the operator for its kind; the error for
  an unknown kind of flaw cannot arise here.  The orderings and the bindings
  of the plan are alive when the search refines it; whether they still are
  afterwards is not among the results of the function.
\<close>

datatype flaw =
    UnsafeFlaw unsafe
  | OpenConditionFlaw open_condition
  | UnexpandedCompositeStepFlaw unexpanded_composite_step
  | MutexThreatFlaw mutex_threat

fun refinements ::
  "('o, 'b) env \<Rightarrow> ('o, 'b) plan \<Rightarrow> ('o, 'b) plan list \<Rightarrow> flaw \<Rightarrow> globals \<Rightarrow>
   error + (('o, 'b) plan list \<times> globals)" where
  "refinements env p plans (UnsafeFlaw us) g = handle_unsafe env p plans us g"
| "refinements env p plans (OpenConditionFlaw oc) g = handle_open_condition env p plans oc g"
| "refinements env p plans (UnexpandedCompositeStepFlaw u) g =
     (case handle_unexpanded_composite_step env p plans u g all_alive of
        Inl e \<Rightarrow> Inl e
      | Inr (plans', g', po') \<Rightarrow> Inr (plans', g'))"
| "refinements env p plans (MutexThreatFlaw mt) g = handle_mutex_threat env p plans mt g"

subsection \<open>Rank and comparison of plans\<close>

text \<open>
  \<^verbatim>\<open>Plan::primary_rank\<close> fills the rank vector through the heuristic (the
  parameter \<open>h\<close>, in the program \<^verbatim>\<open>params->heuristic.plan_rank\<close>) when it is empty and returns its first element.  The
  model returns the plan with the rank filled in beside the value.
\<close>

definition primary_rank ::
  "(('o, 'b) plan \<Rightarrow> cfloat list) \<Rightarrow> ('o, 'b) plan \<Rightarrow> error + (cfloat \<times> ('o, 'b) plan)" where
  "primary_rank h p =
     (let p' = (if rank p = [] then p\<lparr>rank := h p\<rparr> else p)
      in case rank p' of [] \<Rightarrow> Inl OutOfRange | r # rs \<Rightarrow> Inr (r, p'))"

text \<open>The loop of \<^verbatim>\<open>operator<\<close>, from index \<open>i\<close> with the current difference.\<close>

function less_loop :: "cfloat list \<Rightarrow> cfloat list \<Rightarrow> nat \<Rightarrow> cfloat \<Rightarrow> error + cfloat" where
  "less_loop r1 r2 i diff =
     (if i < length r1 \<and> float_is_zero diff
      then (if i < length r2 then less_loop r1 r2 (i + 1) (float_minus (r1 ! i) (r2 ! i))
            else Inl OutOfRange)
      else Inr diff)"
  by pat_completeness auto
termination
  by (relation "measure (\<lambda>(r1, r2, i, diff). length r1 - i)") auto

declare less_loop.simps [simp del]

definition plan_less ::
  "(('o, 'b) plan \<Rightarrow> cfloat list) \<Rightarrow> ('o, 'b) plan \<Rightarrow> ('o, 'b) plan \<Rightarrow> error + bool" where
  "plan_less h p1 p2 =
     (case primary_rank h p1 of
        Inl e \<Rightarrow> Inl e
      | Inr (a, p1') \<Rightarrow>
          (case primary_rank h p2 of
             Inl e \<Rightarrow> Inl e
           | Inr (b, p2') \<Rightarrow>
               (case less_loop (rank p1') (rank p2') 1 (float_minus a b) of
                  Inl e \<Rightarrow> Inl e
                | Inr diff \<Rightarrow> Inr (float_positive diff))))"

text \<open>The rank tuple a plan is compared by: the stored one, or the heuristic's.\<close>

definition rank_tuple :: "(('o, 'b) plan \<Rightarrow> cfloat list) \<Rightarrow> ('o, 'b) plan \<Rightarrow> cfloat list" where
  "rank_tuple h p = (if rank p = [] then h p else rank p)"

text \<open>
  The comparisons \<^verbatim>\<open>!=\<close> and \<^verbatim>\<open>></\<close> of two rank values: a NaN differs from every
  value and is greater than none.
\<close>

definition float_differ :: "cfloat \<Rightarrow> cfloat \<Rightarrow> bool" where
  "float_differ a b \<longleftrightarrow> a = NaN \<or> b = NaN \<or> a \<noteq> b"

fun float_greater :: "cfloat \<Rightarrow> cfloat \<Rightarrow> bool" where
  "float_greater NaN y \<longleftrightarrow> False"
| "float_greater x NaN \<longleftrightarrow> False"
| "float_greater (Finite a) (Finite b) \<longleftrightarrow> a > b"
| "float_greater (Finite a) PlusInfinity \<longleftrightarrow> False"
| "float_greater (Finite a) MinusInfinity \<longleftrightarrow> True"
| "float_greater PlusInfinity PlusInfinity \<longleftrightarrow> False"
| "float_greater PlusInfinity y \<longleftrightarrow> True"
| "float_greater MinusInfinity y \<longleftrightarrow> False"

text \<open>
  The specification's reading of the comparison: \<open>r1\<close> is worse than \<open>r2\<close> when
  at the first position where the tuples differ the value of \<open>r1\<close> is greater.
\<close>

fun rank_worse :: "cfloat list \<Rightarrow> cfloat list \<Rightarrow> bool" where
  "rank_worse (a # r1) (b # r2) \<longleftrightarrow>
     (if float_differ a b then float_greater a b else rank_worse r1 r2)"
| "rank_worse r1 r2 \<longleftrightarrow> False"

text \<open>
  The positions that the program compares as the specification says: those
  before the first one where both tuples hold the same infinity.
\<close>

definition common_infinity :: "cfloat \<Rightarrow> cfloat \<Rightarrow> bool" where
  "common_infinity a b \<longleftrightarrow> a = b \<and> (a = PlusInfinity \<or> a = MinusInfinity)"

fun comparable_prefix :: "cfloat list \<Rightarrow> cfloat list \<Rightarrow> nat" where
  "comparable_prefix (a # r1) (b # r2) =
     (if common_infinity a b then 0 else Suc (comparable_prefix r1 r2))"
| "comparable_prefix r1 r2 = 0"

text \<open>The difference that the loop ends with, as a recursion over the two tuples.\<close>

fun last_difference :: "cfloat \<Rightarrow> cfloat list \<Rightarrow> cfloat list \<Rightarrow> cfloat" where
  "last_difference d (a # r1) (b # r2) =
     (if float_is_zero d then last_difference (float_minus a b) r1 r2 else d)"
| "last_difference d r1 r2 = d"

subsection \<open>Sample data\<close>

text \<open>A plan without steps or flaws, and a heuristic that counts open conditions.\<close>

definition sample_plan :: "(unit, unit) plan" where
  "sample_plan = Plan [] 0 [] 0 () () [] 0 [] 0 [] 0 [] 0 [] 0 []"

definition sample_rank :: "(unit, unit) plan \<Rightarrow> cfloat list" where
  "sample_rank p = [Finite (real (length (open_conds p))), Finite 0]"

text \<open>
  A small formula algebra: the connectives absorb the constants, as those of
  the planner do.
\<close>

fun sample_and :: "formula \<Rightarrow> formula \<Rightarrow> formula" where
  "sample_and Tautology g = g"
| "sample_and Contradiction g = Contradiction"
| "sample_and f Tautology = f"
| "sample_and f Contradiction = Contradiction"
| "sample_and f g = Conjunction [f, g]"

fun sample_or :: "formula \<Rightarrow> formula \<Rightarrow> formula" where
  "sample_or Contradiction g = g"
| "sample_or Tautology g = Tautology"
| "sample_or f Contradiction = f"
| "sample_or f Tautology = Tautology"
| "sample_or f g = Disjunction [f, g]"

fun sample_not :: "formula \<Rightarrow> formula" where
  "sample_not Tautology = Contradiction"
| "sample_not Contradiction = Tautology"
| "sample_not (Lit (Atom a)) = Lit (Negation a)"
| "sample_not (Lit (Negation a)) = Lit (Atom a)"
| "sample_not (Equality v i1 t i2) = Inequality v i1 t i2"
| "sample_not (Inequality v i1 t i2) = Equality v i1 t i2"
| "sample_not f = f"

text \<open>
  A context without timed literals, achievers or decompositions, whose
  orderings and bindings accept everything, and empty reference parameters.
\<close>

definition sample_env :: "(unit, unit) env" where
  "sample_env =
     \<lparr>ground_actions = False, domain_constraints = False,
      strip_static_preconditions = True, random_open_conditions = False,
      durative_actions = False, has_planning_graph = False,
      static_predicate = (\<lambda>p. p = 0),
      rand_value = (\<lambda>k. 0), RAND_MAX = 32767,
      problem_goal = Tautology,
      init_action = \<lparr>a_name = ''<init 0>'', a_schema = False, a_durative = False, a_composite = False,
                      a_parameters = [], a_condition = Tautology, a_effects = []\<rparr>,
      timed_actions = [],
      instantiation_of = (\<lambda>f. f),
      pg_literal_achievers = (\<lambda>l. None),
      achieves_pred = (\<lambda>p. None),
      achieves_neg_pred = (\<lambda>p. None),
      achieves_composite = [],
      end_time_effect = (\<lambda>e. if e_when e = Effect_AT_START then StepTime_AT_START else StepTime_AT_END),
      end_time = (\<lambda>t. if t = AT_START then StepTime_AT_START else StepTime_AT_END),
      start_time = (\<lambda>t. if t = AT_END then StepTime_AT_END else StepTime_AT_START),
      step_time_ge = (\<lambda>a b. a = StepTime_AT_END \<or> b = StepTime_AT_START),
      new_binary_orderings = (), new_temporal_orderings = (),
      is_temporal = (\<lambda>ords. False),
      possibly_before = (\<lambda>ords i1 t1 i2 t2. True),
      possibly_not_before = (\<lambda>ords i1 t1 i2 t2. True),
      possibly_not_after = (\<lambda>ords i1 t1 i2 t2. True),
      possibly_concurrent = (\<lambda>ords i1 i2. None),
      refine = (\<lambda>ords x. Some ()),
      refine_step = (\<lambda>ords x s b. Some ()),
      refine_timed = (\<lambda>ords t s. Some ()),
      refine_makespan = (\<lambda>ords i a b. Some ()),
      heuristic_makespans = (\<lambda>f i b. (0, 0)),
      EMPTY_bindings = (),
      bindings_add = (\<lambda>b bl t. Some ()),
      bindings_add_step = (\<lambda>b i a. Some ()),
      unify = (\<lambda>b l1 i1 l2 i2. if l1 = l2 then Some [] else None),
      affects = (\<lambda>b l1 i1 l2 i2. None),
      bindings_domain = (\<lambda>b v i. [1, 2]),
      consistent_with = (\<lambda>b f. True),
      quantifies = (\<lambda>e v. False),
      formula_or = sample_or,
      formula_and = sample_and,
      formula_not = sample_not,
      make_inequality = (\<lambda>v i t j. Inequality v i t j),
      make_forall = (\<lambda>vs f. Forall vs f f),
      substitution = (\<lambda>f m. f),
      plan_rank = (\<lambda>p. [Finite (real (length (open_conds p))), Finite 0])\<rparr>"

lemma sample_env_simps [simp]:
  "ground_actions sample_env = False"
  "domain_constraints sample_env = False"
  "strip_static_preconditions sample_env = True"
  "random_open_conditions sample_env = False"
  "durative_actions sample_env = False"
  "has_planning_graph sample_env = False"
  "static_predicate sample_env pr = (pr = 0)"
  "problem_goal sample_env = Tautology"
  "timed_actions sample_env = []"
  "achieves_composite sample_env = []"
  "end_time_effect sample_env e =
     (if e_when e = Effect_AT_START then StepTime_AT_START else StepTime_AT_END)"
  "end_time sample_env t = (if t = AT_START then StepTime_AT_START else StepTime_AT_END)"
  "start_time sample_env t = (if t = AT_END then StepTime_AT_END else StepTime_AT_START)"
  "step_time_ge sample_env t1 t2 = (t1 = StepTime_AT_END \<or> t2 = StepTime_AT_START)"
  "is_temporal sample_env ords = False"
  "possibly_before sample_env ords i1 t1 i2 t2 = True"
  "possibly_not_before sample_env ords i1 t1 i2 t2 = True"
  "possibly_not_after sample_env ords i1 t1 i2 t2 = True"
  "refine sample_env ords x = Some ()"
  "refine_step sample_env ords x s bo = Some ()"
  "bindings_add sample_env b bl tst = Some ()"
  "bindings_add_step sample_env b i a = Some ()"
  "unify sample_env b l1 i1 l2 i2 = (if l1 = l2 then Some [] else None)"
  "affects sample_env b l1 i1 lo i2 = None"
  "bindings_domain sample_env b v i = [1, 2]"
  "quantifies sample_env e v = False"
  "formula_or sample_env = sample_or"
  "formula_and sample_env = sample_and"
  "formula_not sample_env = sample_not"
  by (simp_all add: sample_env_def)

definition sample_vars :: goal_vars where
  "sample_vars = \<lparr>gv_open_conds = [], gv_num_open_conds = 0, gv_new_bindings = [],
                  gv_globals = \<lparr>rand_calls = 0, num_variables = 0\<rparr>\<rparr>"

text \<open>
  The specification's words for the admission of a literal: the open
  condition is added unless \<^verbatim>\<open>test_only\<close> is set or the predicate is static and
  static preconditions are stripped; the count grows by one in every case.
\<close>

definition spec_literal_admission ::
  "('o, 'b) env \<Rightarrow> nat \<Rightarrow> bool \<Rightarrow> literal_t \<Rightarrow> formula_time \<Rightarrow> goal_vars \<Rightarrow> goal_vars" where
  "spec_literal_admission env step_id test_only l when st =
     st\<lparr>gv_open_conds :=
          (if test_only \<or> (strip_static_preconditions env \<and> static_predicate env (literal_predicate l))
           then gv_open_conds st
           else OpenCondition step_id l when # gv_open_conds st),
        gv_num_open_conds := gv_num_open_conds st + 1\<rparr>"

text \<open>
  A plan as the search driver hands it to a refinement operator: its rank has
  been computed and its serial number assigned.  Its only flaw is an unsafe
  link that the sample context does not take for a real threat.
\<close>

definition sample_atom :: atom where
  "sample_atom = \<lparr>predicate_of = 1, terms_of = [Obj 1]\<rparr>"

definition sample_effect :: effect where
  "sample_effect = \<lparr>e_literal = Negation sample_atom, e_when = Effect_AT_END,
     e_condition = Tautology, e_link_condition = Tautology, e_parameters = []\<rparr>"

definition sample_link :: link where
  "sample_link = Link 0 StepTime_AT_END (OpenCondition GOAL_ID (Atom sample_atom) AT_START)"

definition sample_unsafe :: unsafe where
  "sample_unsafe = Unsafe sample_link 1 sample_effect"

definition sample_parent :: "(unit, unit) plan" where
  "sample_parent = sample_plan\<lparr>unsafes := [sample_unsafe], num_unsafes := 1,
     rank := [Finite 1, Finite 0], serial_no := Some 7\<rparr>"

text \<open>
  The specification's words for the repair of an inequality: one successor for
  each object of the chosen domain that the bindings accept; it binds the
  chosen variable to the object, keeps the other side from it, and has lost the
  open condition.
\<close>

definition inequality_successor ::
  "('o, 'b) plan \<Rightarrow> open_condition \<Rightarrow> 'b \<Rightarrow> ('o, 'b) plan" where
  "inequality_successor p open_cond bnds =
     p\<lparr>bindings := bnds,
       open_conds := remove1 open_cond (open_conds p),
       num_open_conds := num_open_conds p - 1,
       rank := [], serial_no := None\<rparr>"

definition spec_inequality_successors ::
  "('o, 'b) env \<Rightarrow> ('o, 'b) plan \<Rightarrow> open_condition \<Rightarrow> variable \<Rightarrow> nat \<Rightarrow> variable \<Rightarrow> nat \<Rightarrow>
   object list \<Rightarrow> ('o, 'b) plan list" where
  "spec_inequality_successors env p open_cond var1 id1 var2 id2 names =
     List.map_filter
       (\<lambda>ob. map_option (inequality_successor p open_cond)
                (bindings_add env (bindings p)
                   [Binding var1 id1 (Obj ob) 0 True, Binding var2 id2 (Obj ob) 0 False] False))
       names"

text \<open>
  A plan whose only flaw is the inequality of the variables 5 and 6 at the goal
  step, and a context whose bindings refuse the object 1.
\<close>

definition sample_neq :: open_condition where
  "sample_neq = OpenConditionNeq GOAL_ID 5 0 (Var 6) 0"

definition sample_neq_plan :: "(unit, unit) plan" where
  "sample_neq_plan = sample_plan\<lparr>open_conds := [sample_neq], num_open_conds := 1\<rparr>"

definition sample_neq_env :: "(unit, unit) env" where
  "sample_neq_env = sample_env\<lparr>bindings_add :=
     (\<lambda>b bl t. if map b_term bl = [Obj 1, Obj 1] then None else Some ())\<rparr>"

text \<open>
  An open condition of the goal step for the sample atom, and two achievers of
  it: the dummy initial action and the action \<^verbatim>\<open>move\<close> of the domain.
\<close>

definition sample_add_effect :: effect where
  "sample_add_effect = \<lparr>e_literal = Atom sample_atom, e_when = Effect_AT_END,
     e_condition = Tautology, e_link_condition = Tautology, e_parameters = []\<rparr>"

definition sample_init_action :: action where
  "sample_init_action = \<lparr>a_name = ''<init 0>'', a_schema = False, a_durative = False,
     a_composite = False, a_parameters = [], a_condition = Tautology,
     a_effects = [sample_add_effect]\<rparr>"

definition sample_move :: action where
  "sample_move = \<lparr>a_name = ''move'', a_schema = True, a_durative = False,
     a_composite = False, a_parameters = [], a_condition = Tautology,
     a_effects = [sample_add_effect]\<rparr>"

definition sample_open_cond :: open_condition where
  "sample_open_cond = OpenCondition GOAL_ID (Atom sample_atom) AT_START"

definition sample_achievers :: "(action \<times> effect) list" where
  "sample_achievers = [(sample_init_action, sample_add_effect), (sample_move, sample_add_effect)]"

definition sample_open_plan :: "(unit, unit) plan" where
  "sample_open_plan = sample_plan\<lparr>open_conds := [sample_open_cond], num_open_conds := 1\<rparr>"

text \<open>
  The stored flaw counts and the lengths of the flaw chains.  A count is a
  \<^verbatim>\<open>size_t\<close>; it matches a chain when it is the length of the chain as a 64-bit
  number.
\<close>

definition unsafes_counted :: "('o, 'b) plan \<Rightarrow> bool" where
  "unsafes_counted p \<longleftrightarrow> num_unsafes p = of_nat (length (unsafes p))"

definition open_conds_counted :: "('o, 'b) plan \<Rightarrow> bool" where
  "open_conds_counted p \<longleftrightarrow> num_open_conds p = of_nat (length (open_conds p))"

definition unexpanded_steps_counted :: "('o, 'b) plan \<Rightarrow> bool" where
  "unexpanded_steps_counted p \<longleftrightarrow>
     num_unexpanded_steps p = of_nat (length (unexpanded_steps p))"

text \<open>
  A plan with the initial step, a composite step that has not been expanded
  and the goal step, whose open condition the initial step can close.
\<close>

definition sample_travel :: action where
  "sample_travel = \<lparr>a_name = ''travel'', a_schema = True, a_durative = False,
     a_composite = True, a_parameters = [], a_condition = Tautology, a_effects = []\<rparr>"

definition sample_goal_action :: action where
  "sample_goal_action = \<lparr>a_name = [], a_schema = True, a_durative = False,
     a_composite = False, a_parameters = [], a_condition = Lit (Atom sample_atom),
     a_effects = []\<rparr>"

definition sample_composite_plan :: "(unit, unit) plan" where
  "sample_composite_plan =
     Plan [Step 1 sample_travel, Step 0 sample_init_action, Step GOAL_ID sample_goal_action] 1
       [] 0 () () [] 0 [] 0 [] 0 [sample_open_cond] 1
       [UnexpandedCompositeStep (Step 1 sample_travel)] 1 []"



text \<open>
  The specification's words for the expansion of a composite step: the
  successor \<open>p'\<close> of the plan \<open>p\<close> carries a new decomposition link from the step
  of the flaw to the frame instantiated from the decomposition \<open>d\<close>, and the
  frame; it has lost the flaw, and gained a flaw for every new composite step.
\<close>

definition expansion_of ::
  "('o, 'b) plan \<Rightarrow> unexpanded_composite_step \<Rightarrow> decomposition \<Rightarrow> ('o, 'b) plan \<Rightarrow> bool" where
  "expansion_of p unexpanded d p' \<longleftrightarrow>
     decomposition_links p' =
       DecompositionLink (ucs_step_id unexpanded) (DecompositionFrame d) # decomposition_links p
     \<and> num_decomposition_links p' = num_decomposition_links p + 1
     \<and> decomposition_frames p' = DecompositionFrame d # decomposition_frames p
     \<and> (\<exists>news. unexpanded_steps p' = news @ remove1 unexpanded (unexpanded_steps p)
            \<and> num_unexpanded_steps p' = num_unexpanded_steps p + of_nat (length news) - 1
            \<and> (\<forall>x \<in> set news. a_composite (ucs_step_action x) \<and> num_steps p < ucs_step_id x))"

text \<open>
  A decomposition of the action \<^verbatim>\<open>travel\<close> with a single pseudo-step, and a
  context that knows it.
\<close>

definition sample_drive :: decomposition where
  "sample_drive = \<lparr>d_name = ''drive'', d_pseudo_steps = [Step 0 sample_move],
     d_binding_list = [], d_ordering_list = [], d_link_list = [],
     d_dummy_initial_step_id = 0, d_dummy_final_step_id = 0\<rparr>"

definition sample_decomp_env :: "(unit, unit) env" where
  "sample_decomp_env = sample_env\<lparr>achieves_composite :=
     [(sample_move, sample_drive), (sample_travel, sample_drive)]\<rparr>"

text \<open>
  A context that knows two decompositions of the action \<^verbatim>\<open>travel\<close>, and one
  whose bindings accept no binding and whose first decomposition of \<^verbatim>\<open>travel\<close>
  comes with one.
\<close>

definition sample_walk :: decomposition where
  "sample_walk = \<lparr>d_name = ''walk'', d_pseudo_steps = [Step 0 sample_move],
     d_binding_list = [], d_ordering_list = [], d_link_list = [],
     d_dummy_initial_step_id = 0, d_dummy_final_step_id = 0\<rparr>"

definition sample_fly :: decomposition where
  "sample_fly = \<lparr>d_name = ''fly'', d_pseudo_steps = [Step 0 sample_move],
     d_binding_list = [Binding 0 0 (Obj 1) 0 True], d_ordering_list = [], d_link_list = [],
     d_dummy_initial_step_id = 0, d_dummy_final_step_id = 0\<rparr>"

definition sample_two_env :: "(unit, unit) env" where
  "sample_two_env = sample_env\<lparr>achieves_composite :=
     [(sample_travel, sample_drive), (sample_move, sample_drive), (sample_travel, sample_walk)]\<rparr>"

definition sample_strict_env :: "(unit, unit) env" where
  "sample_strict_env = sample_env\<lparr>achieves_composite :=
       [(sample_travel, sample_fly), (sample_travel, sample_drive)],
     bindings_add := (\<lambda>b bl t. if bl = [] then Some () else None)\<rparr>"

text \<open>
  The construction of a successor from a decomposition fails on an
  inconsistency: the precondition of a new step is a contradiction, the
  bindings do not accept the bindings that come with a precondition or with the
  decomposition, or the orderings do not accept an ordering of the expansion.
\<close>

definition construction_fails ::
  "('o, 'b) env \<Rightarrow> ('o, 'b) plan \<Rightarrow> unexpanded_composite_step \<Rightarrow> decomposition \<Rightarrow> globals \<Rightarrow>
   bool" where
  "construction_fails env p unexpanded d g \<longleftrightarrow>
     (case install_steps env p all_alive (num_steps p)
             [0 ..< length (f_steps (DecompositionFrame d))]
             \<lparr>is_instance = DecompositionFrame d, is_steps = steps p,
              is_num_steps = num_steps p, is_unexpanded_steps = unexpanded_steps p,
              is_num_unexpanded_steps = num_unexpanded_steps p,
              is_open_conds = open_conds p, is_num_open_conds = num_open_conds p,
              is_bindings = bindings p, is_globals = g\<rparr> of
        Inl e \<Rightarrow> False
      | Inr (Failed g' new_bindings) \<Rightarrow> True
      | Inr (Done s) \<Rightarrow>
          (case bindings_add env (is_bindings s) (f_binding_list (is_instance s)) False of
             None \<Rightarrow> True
           | Some new_bindings \<Rightarrow>
               (case install_orderings env p all_alive unexpanded (is_instance s) new_bindings of
                  Inl e \<Rightarrow> False
                | Inr (ok, new_orderings, po) \<Rightarrow> \<not> ok)))"

text \<open>
  The specification's words for the handling of an unexpanded composite step:
  for every applicable decomposition, in turn, what its construction adds.
\<close>

fun expansions ::
  "('o, 'b) env \<Rightarrow> ('o, 'b) plan \<Rightarrow> unexpanded_composite_step \<Rightarrow> decomposition list \<Rightarrow>
   globals \<Rightarrow> parent_objects \<Rightarrow> error + (('o, 'b) plan list \<times> globals \<times> parent_objects)" where
  "expansions env p unexpanded [] g po = Inr ([], g, po)"
| "expansions env p unexpanded (d # ds) g po =
     (case add_decomposition_frame env p [] unexpanded d g po of
        Inl e \<Rightarrow> Inl e
      | Inr (one, g1, po1) \<Rightarrow>
          (case expansions env p unexpanded ds g1 po1 of
             Inl e \<Rightarrow> Inl e
           | Inr (others, g2, po2) \<Rightarrow> Inr (one @ others, g2, po2)))"

text \<open>
  The reference parameters of goal admission are counted when the count is
  the length of the chain.
\<close>

definition goal_vars_counted :: "goal_vars \<Rightarrow> bool" where
  "goal_vars_counted st \<longleftrightarrow> gv_num_open_conds st = of_nat (length (gv_open_conds st))"

text \<open>
  The plans that an operator adds to the plans it is given all have a
  property; nothing is said of a run that ends in an error.
\<close>

definition all_added ::
  "(('o, 'b) plan \<Rightarrow> bool) \<Rightarrow> ('o, 'b) plan list \<Rightarrow> error + (('o, 'b) plan list \<times> globals) \<Rightarrow> bool" where
  "all_added P plans r =
     (case r of
        Inl e \<Rightarrow> True
      | Inr (plans', g') \<Rightarrow> (\<exists>news. plans' = plans @ news \<and> list_all P news))"

text \<open>The same for an operator that answers a number, and for one that leaves the state alone.\<close>

definition drop_count ::
  "error + (nat \<times> ('o, 'b) plan list \<times> globals) \<Rightarrow> error + (('o, 'b) plan list \<times> globals)" where
  "drop_count r = (case r of Inl e \<Rightarrow> Inl e | Inr (n, plans', g') \<Rightarrow> Inr (plans', g'))"


text \<open>The counts of unsafe links and open conditions, and all three counts.\<close>

definition threats_and_goals_counted :: "('o, 'b) plan \<Rightarrow> bool" where
  "threats_and_goals_counted p \<longleftrightarrow> unsafes_counted p \<and> open_conds_counted p"

definition flaws_counted :: "('o, 'b) plan \<Rightarrow> bool" where
  "flaws_counted p \<longleftrightarrow> unsafes_counted p \<and> open_conds_counted p \<and> unexpanded_steps_counted p"

text \<open>A flaw of a plan: an element of the chain of its kind.\<close>

fun flaw_of :: "('o, 'b) plan \<Rightarrow> flaw \<Rightarrow> bool" where
  "flaw_of p (UnsafeFlaw us) \<longleftrightarrow> us \<in> set (unsafes p)"
| "flaw_of p (OpenConditionFlaw oc) \<longleftrightarrow> oc \<in> set (open_conds p)"
| "flaw_of p (UnexpandedCompositeStepFlaw u) \<longleftrightarrow> u \<in> set (unexpanded_steps p)"
| "flaw_of p (MutexThreatFlaw mt) \<longleftrightarrow> mt \<in> set (mutex_threats p)"

text \<open>
  The counts of a plan that \<^verbatim>\<open>make_link\<close> adds for a step: the counts of unsafe
  links and open conditions match their chains; for a new step so does the
  count of unexpanded composite steps, for a step of the plan the chain of
  unexpanded composite steps is empty and the count is the count of the plan.
\<close>

definition link_counted :: "('o, 'b) plan \<Rightarrow> step \<Rightarrow> ('o, 'b) plan \<Rightarrow> bool" where
  "link_counted p stp p' \<longleftrightarrow>
     unsafes_counted p' \<and> open_conds_counted p' \<and>
     (if s_id stp > num_steps p then unexpanded_steps_counted p'
      else unexpanded_steps p' = [] \<and> num_unexpanded_steps p' = num_unexpanded_steps p)"


definition sample_reuse_env :: "(unit, unit) env" where
  "sample_reuse_env = sample_env\<lparr>strip_static_preconditions := False,
     achieves_pred :=
       (\<lambda>pr. if pr = 1 then Some [(sample_init_action, sample_add_effect)] else None)\<rparr>"


section \<open>Properties\<close>

subsection \<open>Completeness of a plan\<close>

text \<open>
  C3: for every plan, \<^verbatim>\<open>Plan::complete()\<close> returns true if and only if all four
  flaw chains (unsafes, open conditions, mutex threats, unexpanded composite
  steps) are empty.
\<close>

theorem complete_iff_all_chains_empty:
  "plan_complete p \<longleftrightarrow>
     (unsafes p = [] \<and> open_conds p = [] \<and> mutex_threats p = [] \<and> unexpanded_steps p = [])"
  by (simp add: plan_complete_def)

subsection \<open>Goal admission\<close>

text \<open>
  C4: for every formula, \<^verbatim>\<open>add_goal\<close> returns false if and only if the formula is
  a contradiction; and whenever it returns false, the open-condition chain, the
  open-condition count and the output binding list are left unchanged.
\<close>

theorem add_goal_false_iff_contradiction:
  "((\<exists>st'. add_goal env st goal step_id test_only = Inr (False, st')) \<longleftrightarrow> contradiction goal)
   \<and> (\<forall>st'. add_goal env st goal step_id test_only = Inr (False, st') \<longrightarrow> st' = st)"
proof -
  have nt: "contradiction goal \<Longrightarrow> \<not> tautology goal" by (cases goal) auto
  show ?thesis
    using nt by (auto simp: add_goal_def split: sum.splits)
qed

theorem add_goal_false_iff_contradiction_witness:
  "add_goal sample_env sample_vars Contradiction 3 False = Inr (False, sample_vars)
   \<and> add_goal sample_env sample_vars Tautology 3 False = Inr (True, sample_vars)"
proof -
  have "contradiction Contradiction" by simp
  with add_goal_false_iff_contradiction[of sample_env sample_vars Contradiction 3 False]
  obtain st' where s: "add_goal sample_env sample_vars Contradiction 3 False = Inr (False, st')"
    by blast
  with add_goal_false_iff_contradiction[of sample_env sample_vars Contradiction 3 False]
  have "st' = sample_vars" by blast
  with s show ?thesis by (simp add: add_goal_def)
qed

lemma add_literal_goal_eq:
  "add_literal_goal env step_id test_only l when st
     = spec_literal_admission env step_id test_only l when st"
  by (simp add: add_literal_goal_def spec_literal_admission_def Let_def)

lemma add_goal_loop_Nil: "add_goal_loop env step_id test_only [] st = Inr st"
  by (subst add_goal_loop.simps) simp

text \<open>
  C5: when \<^verbatim>\<open>add_goal\<close> processes a (timed) literal goal, it adds an
  \<^verbatim>\<open>OpenCondition(step_id, literal, when)\<close> to the chain unless \<^verbatim>\<open>test_only\<close> is set
  or \<^verbatim>\<open>strip_static_preconditions\<close> holds and the predicate of the literal is
  static; it increments the open-condition count in every case; and the time
  is \<^verbatim>\<open>AT_START\<close> for a plain literal.  This holds for a literal met anywhere in
  the work list, and so for a goal that is a literal.
\<close>

theorem add_goal_literal:
  "add_goal_step env step_id test_only (TimedLiteral l when) goals st
     = Inr (goals, spec_literal_admission env step_id test_only l when st)
   \<and> add_goal_step env step_id test_only (Lit l) goals st
     = Inr (goals, spec_literal_admission env step_id test_only l AT_START st)
   \<and> add_goal env st (TimedLiteral l when) step_id test_only
     = Inr (True, spec_literal_admission env step_id test_only l when st)
   \<and> add_goal env st (Lit l) step_id test_only
     = Inr (True, spec_literal_admission env step_id test_only l AT_START st)"
proof (intro conjI)
  show "add_goal_step env step_id test_only (TimedLiteral l when) goals st
     = Inr (goals, spec_literal_admission env step_id test_only l when st)"
    by (simp add: add_literal_goal_eq)
  show "add_goal_step env step_id test_only (Lit l) goals st
     = Inr (goals, spec_literal_admission env step_id test_only l AT_START st)"
    by (simp add: add_literal_goal_eq)
  show "add_goal env st (TimedLiteral l when) step_id test_only
     = Inr (True, spec_literal_admission env step_id test_only l when st)"
    unfolding add_goal_def
    by (subst add_goal_loop.simps) (simp add: add_goal_loop_Nil add_literal_goal_eq)
  show "add_goal env st (Lit l) step_id test_only
     = Inr (True, spec_literal_admission env step_id test_only l AT_START st)"
    unfolding add_goal_def
    by (subst add_goal_loop.simps) (simp add: add_goal_loop_Nil add_literal_goal_eq)
qed

subsection \<open>Comparison of plans\<close>

text \<open>
  The difference of two rank values is zero when both are the same finite
  value; otherwise it is positive when the first is greater, unless both are
  the same infinity.
\<close>

lemma float_minus_zero:
  "float_is_zero (float_minus a b) \<longleftrightarrow> \<not> float_differ a b \<and> \<not> common_infinity a b"
  by (cases a; cases b) (auto simp: float_is_zero_def float_differ_def common_infinity_def)

lemma float_minus_positive:
  "\<not> common_infinity a b \<Longrightarrow> float_positive (float_minus a b) \<longleftrightarrow> float_greater a b"
  by (cases a; cases b) (auto simp: float_positive_def common_infinity_def)

lemma float_minus_common_infinity:
  "common_infinity a b \<Longrightarrow> float_minus a b = NaN"
  by (cases a; cases b) (auto simp: common_infinity_def)

text \<open>The loop of the comparison ends with the last difference of the rest of the tuples.\<close>

lemma less_loop_last_difference:
  assumes "length r1 = length r2" "i \<le> length r1"
  shows "less_loop r1 r2 i diff = Inr (last_difference diff (drop i r1) (drop i r2))"
  using assms
proof (induction r1 r2 i diff rule: less_loop.induct)
  case (1 r1 r2 i diff)
  show ?case
  proof (cases "i < length r1 \<and> float_is_zero diff")
    case False
    show ?thesis
    proof (cases "i < length r1")
      case True
      then have "i < length r2" using 1(2) by simp
      then show ?thesis
        using False True
        by (subst less_loop.simps) (simp add: Cons_nth_drop_Suc[symmetric])
    next
      case False
      then show ?thesis using 1(2) by (subst less_loop.simps) simp
    qed
  next
    case True
    then have lt: "i < length r2" using 1(2) by simp
    have "less_loop r1 r2 (i + 1) (float_minus (r1 ! i) (r2 ! i))
        = Inr (last_difference (float_minus (r1 ! i) (r2 ! i)) (drop (i + 1) r1) (drop (i + 1) r2))"
      using 1(1)[OF True lt] 1(2) True by simp
    then show ?thesis
      using True lt
      by (subst less_loop.simps) (simp add: Cons_nth_drop_Suc[symmetric])
  qed
qed

lemma last_difference_worse:
  "length r1 = length r2 \<Longrightarrow>
   float_positive (last_difference (float_minus a b) r1 r2) \<longleftrightarrow>
     rank_worse (take (comparable_prefix (a # r1) (b # r2)) (a # r1))
                (take (comparable_prefix (a # r1) (b # r2)) (b # r2))"
proof (induction r1 arbitrary: r2 a b)
  case Nil
  show ?case
  proof (cases "common_infinity a b")
    case True
    then show ?thesis using Nil by (simp add: float_minus_common_infinity float_positive_def)
  next
    case False
    show ?thesis
    proof (cases "float_differ a b")
      case True
      then show ?thesis using False Nil by (simp add: float_minus_positive)
    next
      case nd: False
      then have "float_minus a b = Finite 0"
        using False float_minus_zero[of a b] by (simp add: float_is_zero_def)
      then show ?thesis using nd False Nil by (simp add: float_positive_def)
    qed
  qed
next
  case (Cons c r1)
  then obtain d r2' where r2: "r2 = d # r2'" by (cases r2) auto
  with Cons.prems have len: "length r1 = length r2'" by simp
  show ?case
  proof (cases "common_infinity a b")
    case True
    then show ?thesis
      by (simp add: r2 float_minus_common_infinity float_is_zero_def float_positive_def)
  next
    case False
    show ?thesis
    proof (cases "float_differ a b")
      case True
      then have "\<not> float_is_zero (float_minus a b)" by (simp add: float_minus_zero)
      then show ?thesis
        using True False by (simp add: r2 float_minus_positive)
    next
      case nd: False
      then have "float_is_zero (float_minus a b)" using False by (simp add: float_minus_zero)
      then show ?thesis
        using nd False Cons.IH[OF len, of c d] by (simp add: r2)
    qed
  qed
qed

lemma comparable_prefix_all:
  "length r1 = length r2 \<Longrightarrow> \<forall>(a, b) \<in> set (zip r1 r2). \<not> common_infinity a b \<Longrightarrow>
   comparable_prefix r1 r2 = length r1"
proof (induction r1 arbitrary: r2)
  case Nil
  then show ?case by simp
next
  case (Cons a r1)
  then obtain b r2' where "r2 = b # r2'" by (cases r2) auto
  with Cons show ?case by simp
qed

text \<open>
  C6: comparison of two plans is lexicographic over their rank tuples, and
  \<^verbatim>\<open>operator<(p1, p2)\<close> holds exactly when \<open>p1\<close> is worse: at the first rank position
  where the two tuples differ the value of \<open>p1\<close> is greater than that of \<open>p2\<close>.
  This is so of the positions before the first one where both tuples hold the
  same infinity, hence of all positions when there is none.  The two tuples
  come from the same heuristic and have the same length.
\<close>

theorem plan_less_lexicographic:
  assumes len: "length (rank_tuple h p1) = length (rank_tuple h p2)"
    and ne: "rank_tuple h p1 \<noteq> []"
  shows "plan_less h p1 p2
           = Inr (rank_worse
                    (take (comparable_prefix (rank_tuple h p1) (rank_tuple h p2)) (rank_tuple h p1))
                    (take (comparable_prefix (rank_tuple h p1) (rank_tuple h p2)) (rank_tuple h p2)))
         \<and> ((\<forall>(a, b) \<in> set (zip (rank_tuple h p1) (rank_tuple h p2)). \<not> common_infinity a b)
              \<longrightarrow> plan_less h p1 p2 = Inr (rank_worse (rank_tuple h p1) (rank_tuple h p2)))"
proof -
  obtain a r1 where r1: "rank_tuple h p1 = a # r1" using ne by (cases "rank_tuple h p1") auto
  obtain b r2 where r2: "rank_tuple h p2 = b # r2" using len r1 by (cases "rank_tuple h p2") auto
  have pr1: "primary_rank h p1 = Inr (a, p1\<lparr>rank := a # r1\<rparr>)"
    using r1 by (auto simp: primary_rank_def rank_tuple_def Let_def split: if_splits)
  have pr2: "primary_rank h p2 = Inr (b, p2\<lparr>rank := b # r2\<rparr>)"
    using r2 by (auto simp: primary_rank_def rank_tuple_def Let_def split: if_splits)
  have len': "length (a # r1) = length (b # r2)" using len r1 r2 by simp
  have len'': "length r1 = length r2" using len' by simp
  have "1 \<le> length (a # r1)" by simp
  from less_loop_last_difference[OF len' this, of "float_minus a b"]
  have d: "less_loop (a # r1) (b # r2) 1 (float_minus a b)
      = Inr (last_difference (float_minus a b) r1 r2)" by simp
  have first: "plan_less h p1 p2
      = Inr (rank_worse (take (comparable_prefix (a # r1) (b # r2)) (a # r1))
                        (take (comparable_prefix (a # r1) (b # r2)) (b # r2)))"
    using d last_difference_worse[OF len'', of a b] by (simp add: plan_less_def pr1 pr2)
  have "plan_less h p1 p2 = Inr (rank_worse (a # r1) (b # r2))"
    if "\<forall>(x, y) \<in> set (zip (a # r1) (b # r2)). \<not> common_infinity x y"
    using first comparable_prefix_all[OF len' that] len' by simp
  with first show ?thesis unfolding r1 r2 by blast
qed

theorem plan_less_lexicographic_witness:
  "plan_less sample_rank (sample_plan\<lparr>rank := [Finite 1, Finite 2]\<rparr>)
     (sample_plan\<lparr>rank := [Finite 1, Finite 1]\<rparr>) = Inr True
   \<and> plan_less sample_rank (sample_plan\<lparr>rank := [Finite 1, Finite 1]\<rparr>)
       (sample_plan\<lparr>rank := [Finite 1, Finite 2]\<rparr>) = Inr False"
  using plan_less_lexicographic[of sample_rank "sample_plan\<lparr>rank := [Finite 1, Finite 2]\<rparr>"
      "sample_plan\<lparr>rank := [Finite 1, Finite 1]\<rparr>"]
    plan_less_lexicographic[of sample_rank "sample_plan\<lparr>rank := [Finite 1, Finite 1]\<rparr>"
      "sample_plan\<lparr>rank := [Finite 1, Finite 2]\<rparr>"]
  by (simp add: rank_tuple_def common_infinity_def float_differ_def)

text \<open>
  When both tuples hold the same infinity before the first position where they
  differ, the difference there is a NaN: the loop ends and the comparison is
  false, although the first plan is the worse one.
\<close>

theorem plan_less_common_infinity:
  "plan_less sample_rank (sample_plan\<lparr>rank := [Finite 1, PlusInfinity, Finite 2]\<rparr>)
     (sample_plan\<lparr>rank := [Finite 1, PlusInfinity, Finite 1]\<rparr>) = Inr False
   \<and> rank_worse [Finite 1, PlusInfinity, Finite 2] [Finite 1, PlusInfinity, Finite 1]"
  by (simp add: plan_less_def primary_rank_def less_loop.simps float_is_zero_def
      float_positive_def float_differ_def)

subsection \<open>The initial plan\<close>

lemma add_goal_tautology:
  "tautology goal \<Longrightarrow> add_goal env st goal step_id test_only = Inr (True, st)"
  by (simp add: add_goal_def)

text \<open>
  C1, as the claim states it, fails: the initial plan of a problem whose goal
  is a tautology is not complete, since its chain of mutex threats holds the
  place holder.
\<close>

theorem initial_plan_complete_counterexample:
  "tautology (problem_goal sample_env)
   \<and> (\<exists>p g'. make_initial_plan sample_env \<lparr>rand_calls = 0, num_variables = 0\<rparr> = Inr (Some p, g')
        \<and> \<not> plan_complete p)"
  by (simp add: make_initial_plan_def make_goal_action_def sample_env_def add_goal_def
      Let_def plan_complete_def Plan_def)

text \<open>
  C1, amended: for a problem whose goal formula is a tautology, the initial
  plan built by \<^verbatim>\<open>make_initial_plan\<close> has no unsafe links, no open conditions and
  no unexpanded composite steps, and its chain of mutex threats holds exactly
  the place holder \<^verbatim>\<open>MutexThreat()\<close>; so \<^verbatim>\<open>Plan::complete()\<close> returns false on it.
  Without durative actions the initial plan always exists.
\<close>

theorem initial_plan_tautology_goal:
  assumes taut: "tautology (problem_goal env)"
    and ground: "ground_actions env \<longrightarrow> tautology (instantiation_of env (problem_goal env))"
  shows "(\<forall>p g'. make_initial_plan env g = Inr (Some p, g') \<longrightarrow>
            unsafes p = [] \<and> num_unsafes p = 0
            \<and> open_conds p = [] \<and> num_open_conds p = 0
            \<and> unexpanded_steps p = [] \<and> num_unexpanded_steps p = 0
            \<and> mutex_threats p = [MutexThreat0]
            \<and> \<not> plan_complete p)
         \<and> (\<not> durative_actions env \<longrightarrow> (\<exists>p. make_initial_plan env g = Inr (Some p, g)))"
proof -
  have t: "tautology (a_condition (make_goal_action env))"
    using taut ground by (simp add: make_goal_action_def)
  note ag = add_goal_tautology[OF t]
  show ?thesis
  proof (intro conjI allI impI)
    assume "\<not> durative_actions env"
    then show "\<exists>p. make_initial_plan env g = Inr (Some p, g)"
      by (simp add: make_initial_plan_def ag Let_def)
  next
    fix p g'
    assume m: "make_initial_plan env g = Inr (Some p, g')"
    have flaws: "unsafes p = [] \<and> num_unsafes p = 0 \<and> open_conds p = [] \<and> num_open_conds p = 0
        \<and> unexpanded_steps p = [] \<and> num_unexpanded_steps p = 0 \<and> mutex_threats p = [MutexThreat0]"
      using m
      by (auto simp: make_initial_plan_def ag Let_def Plan_def split: if_splits option.splits)
    then show "unsafes p = []" "num_unsafes p = 0" "open_conds p = []" "num_open_conds p = 0"
      "unexpanded_steps p = []" "num_unexpanded_steps p = 0" "mutex_threats p = [MutexThreat0]"
      by simp_all
    from flaws show "\<not> plan_complete p" by (simp add: plan_complete_def)
  qed
qed

theorem initial_plan_tautology_goal_witness:
  "\<exists>p. make_initial_plan sample_env \<lparr>rand_calls = 0, num_variables = 0\<rparr>
          = Inr (Some p, \<lparr>rand_calls = 0, num_variables = 0\<rparr>)
        \<and> open_conds p = [] \<and> mutex_threats p = [MutexThreat0] \<and> \<not> plan_complete p"
proof -
  have t: "tautology (problem_goal sample_env)" by (simp add: sample_env_def)
  have gr: "ground_actions sample_env \<longrightarrow>
      tautology (instantiation_of sample_env (problem_goal sample_env))"
    by (simp add: sample_env_def)
  have nd: "\<not> durative_actions sample_env" by (simp add: sample_env_def)
  from initial_plan_tautology_goal[OF t gr, of "\<lparr>rand_calls = 0, num_variables = 0\<rparr>"] nd
  show ?thesis by blast
qed

subsection \<open>Bogus unsafe flaws\<close>

text \<open>
  C7, as the claim states it, fails: the successor of a bogus flaw is a newly
  constructed plan, so its rank is empty and its serial number unset, whatever
  the parent's are.
\<close>

theorem handle_unsafe_bogus_counterexample:
  "real_threat sample_env sample_parent sample_unsafe = None
   \<and> sample_unsafe \<in> set (unsafes sample_parent)
   \<and> handle_unsafe sample_env sample_parent [] sample_unsafe \<lparr>rand_calls = 0, num_variables = 0\<rparr>
       \<noteq> Inr ([sample_parent\<lparr>unsafes := remove1 sample_unsafe (unsafes sample_parent),
                              num_unsafes := num_unsafes sample_parent - 1\<rparr>],
              \<lparr>rand_calls = 0, num_variables = 0\<rparr>)"
  by (simp add: real_threat_def handle_unsafe_def sample_env_def sample_parent_def
      sample_plan_def Plan_def chain_remove_def Let_def)

text \<open>
  C7, amended: when \<^verbatim>\<open>handle_unsafe\<close> is given an unsafe flaw of the plan that is
  no longer a real threat, it produces exactly one successor; the successor has
  the steps, links, orderings, bindings, decomposition frames and links, open
  conditions, unexpanded steps and mutex threats of the parent and their
  counts, the unsafe chain without the flaw and \<^verbatim>\<open>num_unsafes\<close> decremented by
  one; its rank is not computed yet and its serial number not assigned.
\<close>

theorem handle_unsafe_bogus:
  assumes bogus: "real_threat env p us = None"
    and flaw: "us \<in> set (unsafes p)"
  shows "handle_unsafe env p plans us g =
           Inr (plans @ [p\<lparr>unsafes := remove1 us (unsafes p),
                           num_unsafes := num_unsafes p - 1,
                           rank := [], serial_no := None\<rparr>], g)"
proof -
  have ne: "unsafes p \<noteq> []" using flaw by auto
  have "Plan (steps p) (num_steps p) (links p) (num_links p) (orderings p) (bindings p)
          (decomposition_frames p) (num_decomposition_frames p)
          (decomposition_links p) (num_decomposition_links p)
          (remove1 us (unsafes p)) (num_unsafes p - 1)
          (open_conds p) (num_open_conds p)
          (unexpanded_steps p) (num_unexpanded_steps p) (mutex_threats p)
        = p\<lparr>unsafes := remove1 us (unsafes p), num_unsafes := num_unsafes p - 1,
             rank := [], serial_no := None\<rparr>"
    by (cases p) (simp add: Plan_def)
  then show ?thesis
    using bogus ne by (simp add: handle_unsafe_def chain_remove_def)
qed

theorem handle_unsafe_bogus_witness:
  "handle_unsafe sample_env sample_parent [] sample_unsafe \<lparr>rand_calls = 0, num_variables = 0\<rparr>
     = Inr ([sample_plan], \<lparr>rand_calls = 0, num_variables = 0\<rparr>)"
proof -
  have b: "real_threat sample_env sample_parent sample_unsafe = None"
    by (simp add: real_threat_def sample_env_def Let_def)
  have f: "sample_unsafe \<in> set (unsafes sample_parent)"
    by (simp add: sample_parent_def)
  show ?thesis
    using handle_unsafe_bogus[OF b f, of "[]" "\<lparr>rand_calls = 0, num_variables = 0\<rparr>"]
    by (simp add: sample_parent_def sample_plan_def Plan_def)
qed

subsection \<open>Inequality open conditions\<close>

lemma Plan_inequality_successor:
  "Plan (steps p) (num_steps p) (links p) (num_links p) (orderings p) bnds
     (decomposition_frames p) (num_decomposition_frames p)
     (decomposition_links p) (num_decomposition_links p)
     (unsafes p) (num_unsafes p)
     (remove1 open_cond (open_conds p)) (num_open_conds p - 1)
     (unexpanded_steps p) (num_unexpanded_steps p) (mutex_threats p)
   = inequality_successor p open_cond bnds"
  by (cases p) (simp add: Plan_def inequality_successor_def)

lemma inequality_branches_spec:
  assumes ne: "open_conds p \<noteq> []"
  shows "inequality_branches env p open_cond False var1 id1 var2 id2 names count plans =
           Inr (count + length (spec_inequality_successors env p open_cond var1 id1 var2 id2 names),
                plans @ spec_inequality_successors env p open_cond var1 id1 var2 id2 names)"
proof (induction names arbitrary: count plans)
  case Nil
  show ?case by (simp add: spec_inequality_successors_def map_filter_simps)
next
  case (Cons name names)
  show ?case
  proof (cases "bindings_add env (bindings p)
      [Binding var1 id1 (Obj name) 0 True, Binding var2 id2 (Obj name) 0 False] False")
    case None
    then show ?thesis
      using Cons.IH by (simp add: spec_inequality_successors_def map_filter_simps)
  next
    case (Some bnds)
    then show ?thesis
      using Cons.IH ne
      by (simp add: spec_inequality_successors_def map_filter_simps chain_remove_def
          Plan_inequality_successor)
  qed
qed

text \<open>
  C8: for an inequality open condition, \<^verbatim>\<open>handle_inequality\<close> branches on the
  variable whose domain is smaller (the second one when the sizes are equal):
  for every object of that domain it emits, when the bindings accept it, one
  successor whose bindings equate that variable with the object and keep the
  other side unequal to it, with the inequality open condition removed.
\<close>

theorem handle_inequality_branches:
  assumes flaw: "open_cond \<in> set (open_conds p)"
    and d1: "d1 = bindings_domain env (bindings p) variable (bl_step_id sid1 (oc_step_id open_cond))"
    and d2: "d2 = bindings_domain env (bindings p) variable2 (bl_step_id sid2 (oc_step_id open_cond))"
  shows "handle_inequality env p plans variable sid1 (Var variable2) sid2 open_cond False =
           (if length d1 < length d2
            then (let succs = spec_inequality_successors env p open_cond
                                variable (bl_step_id sid1 (oc_step_id open_cond))
                                variable2 (bl_step_id sid2 (oc_step_id open_cond)) d1
                  in Inr (length succs, plans @ succs))
            else (let succs = spec_inequality_successors env p open_cond
                                variable2 (bl_step_id sid2 (oc_step_id open_cond))
                                variable (bl_step_id sid1 (oc_step_id open_cond)) d2
                  in Inr (length succs, plans @ succs)))"
proof -
  have ne: "open_conds p \<noteq> []" using flaw by auto
  show ?thesis
    unfolding handle_inequality_def Let_def d1 d2
    by (simp add: inequality_branches_spec[OF ne] del: bl_step_id.simps)
qed

theorem handle_inequality_branches_witness:
  "handle_inequality sample_neq_env sample_neq_plan [] 5 0 (Var 6) 0 sample_neq False
     = Inr (1, [sample_plan])"
proof -
  have f: "sample_neq \<in> set (open_conds sample_neq_plan)"
    by (simp add: sample_neq_plan_def)
  show ?thesis
    using handle_inequality_branches[OF f refl refl, of sample_neq_env "[]" 5 0 6 0]
    by (simp add: spec_inequality_successors_def map_filter_simps sample_neq_env_def
        sample_env_def Binding_def inequality_successor_def sample_neq_plan_def
        sample_plan_def Plan_def sample_neq_def Let_def)
qed

subsection \<open>Adding a step\<close>

lemma steps_link_plan:
  "steps (link_plan env p stp eff open_cond new_steps new_num_steps new_orderings bnds
            new_open_conds new_num_open_conds) = new_steps"
  by (simp add: link_plan_def Plan_def Let_def split: prod.splits)

lemma make_link_step_plans:
  assumes "make_link_step env p plans stp eff open_cond cond_goal False st = Inr (n, plans', g')"
  shows "plans' = plans \<or>
         (\<exists>p'. plans' = plans @ [p'] \<and>
                steps p' = (if s_id stp > num_steps p then stp # steps p else steps p))"
proof (cases "s_id stp > num_steps p")
  case True
  then show ?thesis
    using assms unfolding make_link_step_def Let_def
    by (auto simp: steps_link_plan split: sum.splits option.splits if_splits prod.splits)
next
  case False
  then show ?thesis
    using assms unfolding make_link_step_def Let_def
    by (auto simp: steps_link_plan split: sum.splits option.splits if_splits prod.splits)
qed

lemma make_link_plans:
  assumes "make_link env p plans stp eff lit open_cond unifier False g = Inr (n, plans', g')"
  shows "plans' = plans \<or>
         (\<exists>p'. plans' = plans @ [p'] \<and>
                steps p' = (if s_id stp > num_steps p then stp # steps p else steps p))"
proof -
  obtain nb fs g0 where lb: "link_bindings env eff unifier False g = (nb, fs, g0)"
    by (cases "link_bindings env eff unifier False g") auto
  obtain cg g1 where lc: "link_condition_goal env eff
      (formula_and env (e_condition eff) (e_link_condition eff)) fs False g0 = (cg, g1)"
    by (cases "link_condition_goal env eff
      (formula_and env (e_condition eff) (e_link_condition eff)) fs False g0") auto
  from assms lb lc
  have "plans' = plans \<or>
        (\<exists>cond_goal st. make_link_step env p plans stp eff open_cond cond_goal False st
            = Inr (n, plans', g'))"
    unfolding make_link_def Let_def
    by (auto split: sum.splits if_splits)
  then show ?thesis using make_link_step_plans by blast
qed

lemma new_link_plans:
  assumes "new_link env p plans stp eff lit open_cond False g = Inr (n, plans', g')"
  shows "plans' = plans \<or>
         (\<exists>p'. plans' = plans @ [p'] \<and>
                steps p' = (if s_id stp > num_steps p then stp # steps p else steps p))"
  using assms make_link_plans unfolding new_link_def
  by (fastforce split: option.splits)

lemma add_step_skips_dummies:
  "add_step env p plans lit open_cond achievers g =
     add_step env p plans lit open_cond
       (filter (\<lambda>(act, eff). \<not> dummy_name (a_name act)) achievers) g"
proof (induction achievers arbitrary: plans g)
  case Nil
  show ?case by simp
next
  case (Cons ae achievers)
  obtain act eff where ae: "ae = (act, eff)" by (cases ae)
  show ?case
    using Cons.IH unfolding ae
    by (cases "dummy_name (a_name act)") (auto split: sum.splits)
qed

lemma addable_steps_loop_skips_dummies:
  "addable_steps_loop env p lit open_cond limit achievers count g =
     addable_steps_loop env p lit open_cond limit
       (filter (\<lambda>(act, eff). \<not> dummy_name (a_name act)) achievers) count g"
proof (induction achievers arbitrary: count g)
  case Nil
  show ?case by simp
next
  case (Cons ae achievers)
  obtain act eff where ae: "ae = (act, eff)" by (cases ae)
  show ?case
    using Cons.IH unfolding ae
    by (cases "dummy_name (a_name act)") (auto split: sum.splits)
qed

lemma add_step_new_steps:
  assumes "add_step env p plans lit open_cond achievers g = Inr (plans', g')"
  shows "\<exists>news. plans' = plans @ news \<and>
           (\<forall>p' \<in> set news. \<exists>act \<in> fst ` set achievers.
                \<not> dummy_name (a_name act) \<and> steps p' = Step (num_steps p + 1) act # steps p)"
  using assms
proof (induction achievers arbitrary: plans g)
  case Nil
  then show ?case by simp
next
  case (Cons ae achievers)
  obtain act eff where ae: "ae = (act, eff)" by (cases ae)
  show ?case
  proof (cases "dummy_name (a_name act)")
    case True
    with Cons.prems have "add_step env p plans lit open_cond achievers g = Inr (plans', g')"
      by (simp add: ae)
    from Cons.IH[OF this] show ?thesis by (auto simp: ae)
  next
    case False
    with Cons.prems obtain n plans1 g1 where
      nl: "new_link env p plans (Step (num_steps p + 1) act) eff lit open_cond False g
             = Inr (n, plans1, g1)"
      and rest: "add_step env p plans1 lit open_cond achievers g1 = Inr (plans', g')"
      by (auto simp: ae split: sum.splits)
    from new_link_plans[OF nl]
    have one: "plans1 = plans \<or>
        (\<exists>p'. plans1 = plans @ [p'] \<and> steps p' = Step (num_steps p + 1) act # steps p)"
      by (simp add: Step_def)
    from Cons.IH[OF rest] obtain news where
      news: "plans' = plans1 @ news"
        "\<forall>p' \<in> set news. \<exists>act \<in> fst ` set achievers.
            \<not> dummy_name (a_name act) \<and> steps p' = Step (num_steps p + 1) act # steps p"
      by blast
    from one show ?thesis
    proof
      assume "plans1 = plans"
      with news show ?thesis by (auto simp: ae)
    next
      assume "\<exists>p'. plans1 = plans @ [p'] \<and> steps p' = Step (num_steps p + 1) act # steps p"
      then obtain p1 where p1: "plans1 = plans @ [p1]"
        "steps p1 = Step (num_steps p + 1) act # steps p" by blast
      have "plans' = plans @ (p1 # news)" using news(1) p1(1) by simp
      moreover have "\<forall>p' \<in> set (p1 # news). \<exists>a \<in> fst ` set (ae # achievers).
            \<not> dummy_name (a_name a) \<and> steps p' = Step (num_steps p + 1) a # steps p"
        using news(2) p1(2) False by (auto simp: ae)
      ultimately show ?thesis by blast
    qed
  qed
qed

text \<open>
  C10: the add-step repair never introduces a step for an achiever action whose
  name begins with the character \<^verbatim>\<open><\<close>.  Both \<^verbatim>\<open>add_step\<close> and \<^verbatim>\<open>addable_steps\<close> skip
  every such pair of action and effect (their results are those for the
  achievers without the dummy actions), and every plan that \<^verbatim>\<open>add_step\<close> adds has,
  on top of the steps of the parent, one new step numbered
  \<^verbatim>\<open>num_steps + 1\<close> whose action is an achiever with another name.
\<close>

theorem add_step_never_dummy:
  "add_step env p plans lit open_cond achievers g =
     add_step env p plans lit open_cond
       (filter (\<lambda>(act, eff). \<not> dummy_name (a_name act)) achievers) g
   \<and> addable_steps_loop env p lit open_cond limit achievers count g =
     addable_steps_loop env p lit open_cond limit
       (filter (\<lambda>(act, eff). \<not> dummy_name (a_name act)) achievers) count g
   \<and> (\<forall>plans' g'. add_step env p plans lit open_cond achievers g = Inr (plans', g') \<longrightarrow>
        (\<exists>news. plans' = plans @ news \<and>
           (\<forall>p' \<in> set news. \<exists>act \<in> fst ` set achievers.
                \<not> dummy_name (a_name act) \<and> steps p' = Step (num_steps p + 1) act # steps p)))"
proof (intro conjI allI impI)
  show "add_step env p plans lit open_cond achievers g =
     add_step env p plans lit open_cond
       (filter (\<lambda>(act, eff). \<not> dummy_name (a_name act)) achievers) g"
    by (rule add_step_skips_dummies)
  show "addable_steps_loop env p lit open_cond limit achievers count g =
     addable_steps_loop env p lit open_cond limit
       (filter (\<lambda>(act, eff). \<not> dummy_name (a_name act)) achievers) count g"
    by (rule addable_steps_loop_skips_dummies)
next
  fix plans' g'
  assume "add_step env p plans lit open_cond achievers g = Inr (plans', g')"
  then show "\<exists>news. plans' = plans @ news \<and>
           (\<forall>p' \<in> set news. \<exists>act \<in> fst ` set achievers.
                \<not> dummy_name (a_name act) \<and> steps p' = Step (num_steps p + 1) act # steps p)"
    by (rule add_step_new_steps)
qed

theorem add_step_never_dummy_witness:
  "\<exists>p'. add_step sample_env sample_open_plan [] (Atom sample_atom) sample_open_cond
            sample_achievers \<lparr>rand_calls = 0, num_variables = 0\<rparr>
          = Inr ([p'], \<lparr>rand_calls = 0, num_variables = 0\<rparr>)
        \<and> steps p' = [Step 1 sample_move] \<and> open_conds p' = []"
proof -
  have f: "filter (\<lambda>(act, eff). \<not> dummy_name (a_name act)) sample_achievers
             = [(sample_move, sample_add_effect)]"
    by (simp add: sample_achievers_def dummy_name_def sample_init_action_def sample_move_def)
  have e: "\<exists>p'. add_step sample_env sample_open_plan [] (Atom sample_atom) sample_open_cond
            [(sample_move, sample_add_effect)] \<lparr>rand_calls = 0, num_variables = 0\<rparr>
          = Inr ([p'], \<lparr>rand_calls = 0, num_variables = 0\<rparr>)
        \<and> steps p' = [Step 1 sample_move] \<and> open_conds p' = []"
    by (simp add: new_link_def make_link_def make_link_step_def link_bindings_def
        chain_remove_def dummy_name_def sample_add_effect_def sample_open_cond_def Step_def
        sample_move_def add_goal_def refine_by_goal_def Let_def sample_open_plan_def
        sample_plan_def Plan_def link_plan_def link_threats_def step_threats_def Link_def
        effect_threats_def step_may_threaten_def effect_threatens_def)
  have "add_step sample_env sample_open_plan [] (Atom sample_atom) sample_open_cond
          sample_achievers \<lparr>rand_calls = 0, num_variables = 0\<rparr>
        = add_step sample_env sample_open_plan [] (Atom sample_atom) sample_open_cond
            [(sample_move, sample_add_effect)] \<lparr>rand_calls = 0, num_variables = 0\<rparr>"
    using add_step_never_dummy[THEN conjunct1, of sample_env sample_open_plan "[]"
        "Atom sample_atom" sample_open_cond sample_achievers
        "\<lparr>rand_calls = 0, num_variables = 0\<rparr>"]
    by (simp only: f)
  with e show ?thesis by simp
qed

subsection \<open>Expansion of composite steps\<close>

lemma install_steps_unexpanded:
  assumes "install_steps env p po base sis s0 = Inr (Done s)"
  shows "\<exists>news. is_unexpanded_steps s = news @ is_unexpanded_steps s0
            \<and> is_num_unexpanded_steps s = is_num_unexpanded_steps s0 + of_nat (length news)
            \<and> (\<forall>x \<in> set news. a_composite (ucs_step_action x) \<and> base < ucs_step_id x)"
  using assms
proof (induction sis arbitrary: s0)
  case Nil
  then show ?case by simp
next
  case (Cons si sis)
  define new_step where "new_step = Step (base + 1 + si) (s_action (f_steps (is_instance s0) ! si))"
  define s1 where "s1 = s0\<lparr>is_instance := swap_steps (f_steps (is_instance s0) ! si) new_step
                                (is_instance s0),
                            is_steps := new_step # is_steps s0,
                            is_num_steps := is_num_steps s0 + 1\<rparr>"
  define s2 where "s2 = (if a_composite (s_action new_step)
                then s1\<lparr>is_unexpanded_steps :=
                           UnexpandedCompositeStep new_step # is_unexpanded_steps s1,
                         is_num_unexpanded_steps := is_num_unexpanded_steps s1 + 1\<rparr>
                else s1)"
  let ?ag = "add_goal env \<lparr>gv_open_conds = is_open_conds s2,
                            gv_num_open_conds = is_num_open_conds s2,
                            gv_new_bindings = [], gv_globals = is_globals s2\<rparr>
                (a_condition (s_action new_step)) (s_id new_step) False"
  have unfold: "install_steps env p po base (si # sis) s0 =
      (case ?ag of
         Inl e \<Rightarrow> Inl e
       | Inr (goal_is_consistent, st) \<Rightarrow>
           if \<not> goal_is_consistent
           then Inr (Failed (gv_globals st) (Some (is_bindings s2)))
           else if \<not> bindings_usable p po (is_bindings s2) then Inl DeletedObject
           else (case bindings_add env (is_bindings s2) (gv_new_bindings st) False of
                   None \<Rightarrow> Inr (Failed (gv_globals st) None)
                 | Some bnds \<Rightarrow>
                     install_steps env p po base sis
                       (s2\<lparr>is_open_conds := gv_open_conds st,
                           is_num_open_conds := gv_num_open_conds st,
                           is_bindings := bnds,
                           is_globals := gv_globals st\<rparr>)))"
    unfolding install_steps.simps Let_def new_step_def s1_def s2_def ..
  from Cons.prems unfold obtain st :: goal_vars where ag: "?ag = Inr (True, st)"
    by (cases ?ag) (auto split: if_splits)
  from Cons.prems unfold ag obtain bnds where
    ba: "bindings_add env (is_bindings s2) (gv_new_bindings st) False = Some bnds"
    by (cases "bindings_add env (is_bindings s2) (gv_new_bindings st) False")
       (auto split: if_splits)
  have rest: "install_steps env p po base sis
             (s2\<lparr>is_open_conds := gv_open_conds st, is_num_open_conds := gv_num_open_conds st,
                 is_bindings := bnds, is_globals := gv_globals st\<rparr>) = Inr (Done s)"
    using Cons.prems unfold ag ba by (simp split: if_splits)
  from Cons.IH[OF rest] obtain news where
    news: "is_unexpanded_steps s = news @ is_unexpanded_steps s2"
      "is_num_unexpanded_steps s = is_num_unexpanded_steps s2 + of_nat (length news)"
      "\<forall>x \<in> set news. a_composite (ucs_step_action x) \<and> base < ucs_step_id x"
    by auto
  show ?case
  proof (cases "a_composite (s_action new_step)")
    case False
    then have "is_unexpanded_steps s2 = is_unexpanded_steps s0"
      "is_num_unexpanded_steps s2 = is_num_unexpanded_steps s0"
      by (simp_all add: s2_def s1_def)
    with news show ?thesis by auto
  next
    case True
    then have u: "is_unexpanded_steps s2 = UnexpandedCompositeStep new_step # is_unexpanded_steps s0"
      "is_num_unexpanded_steps s2 = is_num_unexpanded_steps s0 + 1"
      by (simp_all add: s2_def s1_def)
    have id: "base < ucs_step_id (UnexpandedCompositeStep new_step)"
      by (simp add: new_step_def Step_def)
    have "is_unexpanded_steps s = (news @ [UnexpandedCompositeStep new_step]) @ is_unexpanded_steps s0"
      using news(1) u(1) by simp
    moreover have "is_num_unexpanded_steps s
        = is_num_unexpanded_steps s0 + of_nat (length (news @ [UnexpandedCompositeStep new_step]))"
      using news(2) u(2) by simp
    moreover have "\<forall>x \<in> set (news @ [UnexpandedCompositeStep new_step]).
        a_composite (ucs_step_action x) \<and> base < ucs_step_id x"
      using news(3) True id by simp
    ultimately show ?thesis by blast
  qed
qed

text \<open>
  The orderings of the plan have been deleted as soon as \<^verbatim>\<open>new_orderings\<close> is
  another object, and at the label \<^verbatim>\<open>fail\<close> at the latest.
\<close>

lemma delete_bindings_orderings:
  "delete_bindings p po b = Inr po' \<Longrightarrow> orderings_deleted po' = orderings_deleted po"
  by (auto simp: delete_bindings_def split: if_splits)

lemma delete_orderings_deleted:
  "delete_orderings p po ords = Inr po' \<Longrightarrow> (ords \<noteq> orderings p \<longrightarrow> orderings_deleted po)
   \<Longrightarrow> orderings_deleted po'"
  by (auto simp: delete_orderings_def split: if_splits)

lemma expansion_failed_deleted:
  assumes "expansion_failed p plans g po nb ords = Inr (plans', g', po')"
    and "ords \<noteq> orderings p \<longrightarrow> orderings_deleted po"
  shows "plans' = plans \<and> orderings_deleted po'"
proof -
  from assms(1) obtain po1 where
    b: "(case nb of None \<Rightarrow> Inr po | Some b \<Rightarrow> delete_bindings p po b) = Inr po1"
    and o: "delete_orderings p po1 ords = Inr po'" and pl: "plans' = plans"
    unfolding expansion_failed_def by (auto split: sum.splits)
  from b have "orderings_deleted po1 = orderings_deleted po"
    by (cases nb) (auto dest: delete_bindings_orderings)
  with assms(2) delete_orderings_deleted[OF o] pl show ?thesis by simp
qed

lemma refine_in_place_deleted:
  assumes "refine_in_place p f ords po = Inr (ok, ords', po')"
    and "ords \<noteq> orderings p \<longrightarrow> orderings_deleted po"
  shows "ords' \<noteq> orderings p \<longrightarrow> orderings_deleted po'"
  using assms unfolding refine_in_place_def
  by (auto split: if_splits option.splits sum.splits dest: delete_orderings_deleted)

lemma order_contributions_deleted:
  "order_contributions env p inst dgs bnds ids ords po = Inr (ok, ords', po')
   \<Longrightarrow> (ords \<noteq> orderings p \<longrightarrow> orderings_deleted po)
   \<Longrightarrow> (ords' \<noteq> orderings p \<longrightarrow> orderings_deleted po')"
proof (induction ids arbitrary: ords po)
  case Nil
  then show ?case by simp
next
  case (Cons i ids)
  let ?r = "refine_in_place p
             (\<lambda>new_orderings. refine_step env new_orderings
                (Ordering (f_dummy_final_step_id inst) StepTime_AT_END i StepTime_AT_START)
                dgs (if ground_actions env then None else Some bnds))
             ords po"
  from Cons.prems(1) obtain ok1 ords1 po1 where r: "?r = Inr (ok1, ords1, po1)"
    by (cases ?r) (auto split: sum.splits)
  have inv: "ords1 \<noteq> orderings p \<longrightarrow> orderings_deleted po1"
    by (rule refine_in_place_deleted[OF r Cons.prems(2)])
  show ?case
  proof (cases ok1)
    case False
    with Cons.prems(1) r inv show ?thesis by simp
  next
    case True
    with Cons.prems(1) r
    have "order_contributions env p inst dgs bnds ids ords1 po1 = Inr (ok, ords', po')" by simp
    from Cons.IH[OF this inv] show ?thesis .
  qed
qed

lemma order_ancestors_deleted:
  "order_ancestors env p inst dgs bnds sls ords po = Inr (ok, ords', po')
   \<Longrightarrow> (ords \<noteq> orderings p \<longrightarrow> orderings_deleted po)
   \<Longrightarrow> (ords' \<noteq> orderings p \<longrightarrow> orderings_deleted po')"
proof (induction sls arbitrary: ords po)
  case Nil
  then show ?case by simp
next
  case (Cons sl sls)
  obtain stp lnk where sl: "sl = (stp, lnk)" by (cases sl)
  let ?r = "refine_in_place p
             (\<lambda>new_orderings. refine_step env new_orderings
                (Ordering (l_from_id lnk) StepTime_AT_END (s_id stp) StepTime_AT_START)
                (f_steps inst ! (l_from_id lnk - s_id dgs))
                (if ground_actions env then None else Some bnds))
             ords po"
  from Cons.prems(1) sl have rng: "\<not> (l_from_id lnk < s_id dgs
      \<or> l_from_id lnk - s_id dgs \<ge> length (f_steps inst))"
    by (auto simp: Let_def split: if_splits)
  from Cons.prems(1) sl rng obtain ok1 ords1 po1 where r: "?r = Inr (ok1, ords1, po1)"
    by (cases ?r) (auto simp: Let_def split: sum.splits)
  have inv: "ords1 \<noteq> orderings p \<longrightarrow> orderings_deleted po1"
    by (rule refine_in_place_deleted[OF r Cons.prems(2)])
  show ?case
  proof (cases ok1)
    case False
    with Cons.prems(1) sl rng r inv show ?thesis by (simp add: Let_def)
  next
    case True
    with Cons.prems(1) sl rng r
    have "order_ancestors env p inst dgs bnds sls ords1 po1 = Inr (ok, ords', po')"
      by (simp add: Let_def)
    from Cons.IH[OF this inv] show ?thesis .
  qed
qed

lemma order_explicit_deleted:
  "order_explicit env p xs ords po = Inr (ok, ords', po')
   \<Longrightarrow> (ords \<noteq> orderings p \<longrightarrow> orderings_deleted po)
   \<Longrightarrow> (ords' \<noteq> orderings p \<longrightarrow> orderings_deleted po')"
proof (induction xs arbitrary: ords po)
  case Nil
  then show ?case by simp
next
  case (Cons x xs)
  let ?r = "refine_in_place p (\<lambda>new_orderings. refine env new_orderings x) ords po"
  from Cons.prems(1) obtain ok1 ords1 po1 where r: "?r = Inr (ok1, ords1, po1)"
    by (cases ?r) (auto split: sum.splits)
  have inv: "ords1 \<noteq> orderings p \<longrightarrow> orderings_deleted po1"
    by (rule refine_in_place_deleted[OF r Cons.prems(2)])
  show ?case
  proof (cases ok1)
    case False
    with Cons.prems(1) r inv show ?thesis by simp
  next
    case True
    with Cons.prems(1) r
    have "order_explicit env p xs ords1 po1 = Inr (ok, ords', po')" by simp
    from Cons.IH[OF this inv] show ?thesis .
  qed
qed

lemma install_orderings_deleted:
  assumes "install_orderings env p po unexpanded inst bnds = Inr (ok, ords', po')"
  shows "ords' \<noteq> orderings p \<longrightarrow> orderings_deleted po'"
proof -
  from assms obtain dgs others where st: "f_steps inst = dgs # others"
    unfolding install_orderings_def by (cases "f_steps inst") auto
  let ?c = "order_contributions env p inst dgs bnds
              (map l_to_id (filter (\<lambda>l. l_from_id l = ucs_step_id unexpanded) (links p)))
              (orderings p) po"
  from assms st obtain ok1 ords1 po1 where c: "?c = Inr (ok1, ords1, po1)"
    unfolding install_orderings_def Let_def by (cases ?c) (auto split: sum.splits)
  have i1: "ords1 \<noteq> orderings p \<longrightarrow> orderings_deleted po1"
    by (rule order_contributions_deleted[OF c]) simp
  show ?thesis
  proof (cases ok1)
    case False
    with assms st c i1 show ?thesis unfolding install_orderings_def Let_def by simp
  next
    case True
    let ?a = "order_ancestors env p inst dgs bnds
                (concat (map (\<lambda>stp. map (\<lambda>l. (stp, l))
                                      (incoming_links (f_link_list inst) (s_id stp)))
                             (f_steps inst)))
                ords1 po1"
    from assms st c True obtain ok2 ords2 po2 where a: "?a = Inr (ok2, ords2, po2)"
      unfolding install_orderings_def Let_def by (cases ?a) (auto split: sum.splits)
    have i2: "ords2 \<noteq> orderings p \<longrightarrow> orderings_deleted po2"
      by (rule order_ancestors_deleted[OF a i1])
    show ?thesis
    proof (cases ok2)
      case False
      with assms st c True a i2 show ?thesis unfolding install_orderings_def Let_def by simp
    next
      case ok2: True
      with assms st c True a
      have "order_explicit env p (f_ordering_list inst) ords2 po2 = Inr (ok, ords', po')"
        unfolding install_orderings_def Let_def by simp
      from order_explicit_deleted[OF this i2] show ?thesis .
    qed
  qed
qed

text \<open>
  Once the orderings of the plan have been deleted no refinement of them
  returns, so the orderings phase returns only when it has nothing to do.
\<close>

lemma refine_in_place_dead:
  "orderings_deleted po \<Longrightarrow> refine_in_place p f (orderings p) po = Inl DeletedObject"
  by (simp add: refine_in_place_def orderings_usable_def)

lemma order_contributions_dead:
  "orderings_deleted po \<Longrightarrow>
   order_contributions env p inst dgs bnds ids (orderings p) po = Inr (ok, ords', po')
   \<Longrightarrow> ok \<and> ords' = orderings p \<and> po' = po"
  by (cases ids) (auto simp: refine_in_place_dead)

lemma order_ancestors_dead:
  "orderings_deleted po \<Longrightarrow>
   order_ancestors env p inst dgs bnds sls (orderings p) po = Inr (ok, ords', po')
   \<Longrightarrow> ok \<and> ords' = orderings p \<and> po' = po"
  by (cases sls) (auto simp: refine_in_place_dead Let_def split: if_splits)

lemma order_explicit_dead:
  "orderings_deleted po \<Longrightarrow>
   order_explicit env p xs (orderings p) po = Inr (ok, ords', po')
   \<Longrightarrow> ok \<and> ords' = orderings p \<and> po' = po"
  by (cases xs) (auto simp: refine_in_place_dead)

lemma install_orderings_dead:
  assumes dead: "orderings_deleted po"
    and res: "install_orderings env p po unexpanded inst bnds = Inr (ok, ords', po')"
  shows "ok \<and> ords' = orderings p \<and> po' = po"
proof -
  from res obtain dgs others where st: "f_steps inst = dgs # others"
    unfolding install_orderings_def by (cases "f_steps inst") auto
  let ?c = "order_contributions env p inst dgs bnds
              (map l_to_id (filter (\<lambda>l. l_from_id l = ucs_step_id unexpanded) (links p)))
              (orderings p) po"
  from res st obtain ok1 ords1 po1 where c: "?c = Inr (ok1, ords1, po1)"
    unfolding install_orderings_def Let_def by (cases ?c) (auto split: sum.splits)
  from order_contributions_dead[OF dead c]
  have c': "ok1" "ords1 = orderings p" "po1 = po" by simp_all
  let ?a = "order_ancestors env p inst dgs bnds
              (concat (map (\<lambda>stp. map (\<lambda>l. (stp, l))
                                    (incoming_links (f_link_list inst) (s_id stp)))
                           (f_steps inst)))
              (orderings p) po"
  from res st c c' obtain ok2 ords2 po2 where a: "?a = Inr (ok2, ords2, po2)"
    unfolding install_orderings_def Let_def by (cases ?a) (auto split: sum.splits)
  from order_ancestors_dead[OF dead a]
  have a': "ok2" "ords2 = orderings p" "po2 = po" by simp_all
  from res st c c' a a'
  have "order_explicit env p (f_ordering_list inst) (orderings p) po = Inr (ok, ords', po')"
    unfolding install_orderings_def Let_def by simp
  from order_explicit_dead[OF dead this] show ?thesis .
qed

lemma expansion_failed_dead:
  assumes "orderings_deleted po"
  shows "expansion_failed p plans g po nb (orderings p) \<noteq> Inr r"
proof
  assume res: "expansion_failed p plans g po nb (orderings p) = Inr r"
  then obtain po1 where
    b: "(case nb of None \<Rightarrow> Inr po | Some b \<Rightarrow> delete_bindings p po b) = Inr po1"
    and o: "delete_orderings p po1 (orderings p) \<noteq> Inl DeletedObject"
    unfolding expansion_failed_def by (auto split: sum.splits)
  from b have "orderings_deleted po1 = orderings_deleted po"
    by (cases nb) (auto dest: delete_bindings_orderings)
  with assms o show False by (simp add: delete_orderings_def)
qed

text \<open>
  A run of \<^verbatim>\<open>add_decomposition_frame\<close> on a plan whose orderings have been
  deleted does not return.
\<close>

lemma add_decomposition_frame_dead:
  assumes dead: "orderings_deleted po"
  shows "add_decomposition_frame env p plans unexpanded d g po \<noteq> Inr r"
proof
  assume res: "add_decomposition_frame env p plans unexpanded d g po = Inr r"
  let ?is = "install_steps env p po (num_steps p) [0 ..< length (f_steps (DecompositionFrame d))]
             \<lparr>is_instance = DecompositionFrame d, is_steps = steps p,
              is_num_steps = num_steps p, is_unexpanded_steps = unexpanded_steps p,
              is_num_unexpanded_steps = num_unexpanded_steps p,
              is_open_conds = open_conds p, is_num_open_conds = num_open_conds p,
              is_bindings = bindings p, is_globals = g\<rparr>"
  show False
  proof (cases ?is)
    case (Inl e)
    with res show False unfolding add_decomposition_frame_def Let_def by simp
  next
    case (Inr out)
    show False
    proof (cases out)
      case (Failed g1 nb)
      with Inr res have "expansion_failed p plans g1 po nb (orderings p) = Inr r"
        unfolding add_decomposition_frame_def Let_def by simp
      with expansion_failed_dead[OF dead] show False by blast
    next
      case (Done s)
      show False
      proof (cases "bindings_add env (is_bindings s) (f_binding_list (is_instance s)) False")
        case None
        with Inr Done res have "expansion_failed p plans (is_globals s) po None (orderings p) = Inr r"
          unfolding add_decomposition_frame_def Let_def by (simp split: if_splits)
        with expansion_failed_dead[OF dead] show False by blast
      next
        case (Some nb)
        show False
        proof (cases "install_orderings env p po unexpanded (is_instance s) nb")
          case (Inl e)
          with Inr Done Some res show False
            unfolding add_decomposition_frame_def Let_def by (simp split: if_splits)
        next
          case io: (Inr t)
          obtain ok ords po1 where t: "t = (ok, ords, po1)" by (cases t)
          from install_orderings_dead[OF dead io[unfolded t]]
          have d: "ok" "ords = orderings p" "po1 = po" by simp_all
          from Inr Done Some io t d res dead show False
            unfolding add_decomposition_frame_def Let_def
            by (simp add: orderings_usable_def split: if_splits sum.splits)
        qed
      qed
    qed
  qed
qed

text \<open>
  A run of \<^verbatim>\<open>add_decomposition_frame\<close> that returns has failed, and then the
  orderings of the plan have been deleted, or it has added one successor.
\<close>

lemma add_decomposition_frame_expansion:
  assumes res: "add_decomposition_frame env p plans unexpanded d g po = Inr (plans', g', po')"
    and flaw: "unexpanded \<in> set (unexpanded_steps p)"
    and old: "ucs_step_id unexpanded \<le> num_steps p"
  shows "(plans' = plans \<and> orderings_deleted po')
         \<or> (\<exists>p'. plans' = plans @ [p'] \<and> expansion_of p unexpanded d p')"
proof -
  let ?is = "install_steps env p po (num_steps p) [0 ..< length (f_steps (DecompositionFrame d))]
             \<lparr>is_instance = DecompositionFrame d, is_steps = steps p,
              is_num_steps = num_steps p, is_unexpanded_steps = unexpanded_steps p,
              is_num_unexpanded_steps = num_unexpanded_steps p,
              is_open_conds = open_conds p, is_num_open_conds = num_open_conds p,
              is_bindings = bindings p, is_globals = g\<rparr>"
  show ?thesis
  proof (cases ?is)
    case (Inl e)
    with res show ?thesis unfolding add_decomposition_frame_def Let_def by simp
  next
    case (Inr out)
    show ?thesis
    proof (cases out)
      case (Failed g1 nb)
      with Inr res
      have "expansion_failed p plans g1 po nb (orderings p) = Inr (plans', g', po')"
        unfolding add_decomposition_frame_def Let_def by simp
      from expansion_failed_deleted[OF this] show ?thesis by simp
    next
      case (Done s)
      show ?thesis
      proof (cases "bindings_add env (is_bindings s) (f_binding_list (is_instance s)) False")
        case None
        with Inr Done res
        have "expansion_failed p plans (is_globals s) po None (orderings p)
            = Inr (plans', g', po')"
          unfolding add_decomposition_frame_def Let_def by (simp split: if_splits)
        from expansion_failed_deleted[OF this] show ?thesis by simp
      next
        case (Some nb)
        show ?thesis
        proof (cases "install_orderings env p po unexpanded (is_instance s) nb")
          case (Inl e)
          with Inr Done Some res show ?thesis
            unfolding add_decomposition_frame_def Let_def by (simp split: if_splits)
        next
          case io: (Inr t)
          obtain ok ords po1 where t: "t = (ok, ords, po1)" by (cases t)
          have inv: "ords \<noteq> orderings p \<longrightarrow> orderings_deleted po1"
            by (rule install_orderings_deleted[OF io[unfolded t]])
          show ?thesis
          proof (cases ok)
            case False
            with Inr Done Some io t res
            have "expansion_failed p plans (is_globals s) po1 (Some nb) ords
                = Inr (plans', g', po')"
              unfolding add_decomposition_frame_def Let_def by (simp split: if_splits)
            from expansion_failed_deleted[OF this inv] show ?thesis by simp
          next
            case True
            with Inr Done Some io t res obtain new_unexpanded_steps where
              rem: "chain_remove unexpanded (is_unexpanded_steps s) = Inr new_unexpanded_steps"
              and pl: "plans' = plans @ [Plan (is_steps s) (is_num_steps s)
                 (rev (f_link_list (is_instance s)) @ links p)
                 (through_int (num_links p) (length (f_link_list (is_instance s))))
                 ords nb
                 (DecompositionFrame d # decomposition_frames p)
                 (through_int (num_decomposition_frames p + 1) 0)
                 (DecompositionLink (ucs_step_id unexpanded) (DecompositionFrame d)
                    # decomposition_links p)
                 (num_decomposition_links p + 1)
                 (unsafes p) (num_unsafes p)
                 (is_open_conds s) (is_num_open_conds s)
                 new_unexpanded_steps (is_num_unexpanded_steps s - 1)
                 (mutex_threats p)]"
              unfolding add_decomposition_frame_def Let_def
              by (cases "chain_remove unexpanded (is_unexpanded_steps s)")
                 (simp_all split: if_splits)
            from install_steps_unexpanded[OF Inr[unfolded Done]] obtain news where
              news: "is_unexpanded_steps s = news @ unexpanded_steps p"
                "is_num_unexpanded_steps s = num_unexpanded_steps p + of_nat (length news)"
                "\<forall>x \<in> set news. a_composite (ucs_step_action x) \<and> num_steps p < ucs_step_id x"
              by auto
            have notin: "unexpanded \<notin> set news" using news(3) old by auto
            have "new_unexpanded_steps = remove1 unexpanded (news @ unexpanded_steps p)"
              using rem news(1) by (auto simp: chain_remove_def split: if_splits)
            then have r: "new_unexpanded_steps = news @ remove1 unexpanded (unexpanded_steps p)"
              using notin by (simp add: remove1_append)
            have "expansion_of p unexpanded d (Plan (is_steps s) (is_num_steps s)
                 (rev (f_link_list (is_instance s)) @ links p)
                 (through_int (num_links p) (length (f_link_list (is_instance s))))
                 ords nb
                 (DecompositionFrame d # decomposition_frames p)
                 (through_int (num_decomposition_frames p + 1) 0)
                 (DecompositionLink (ucs_step_id unexpanded) (DecompositionFrame d)
                    # decomposition_links p)
                 (num_decomposition_links p + 1)
                 (unsafes p) (num_unsafes p)
                 (is_open_conds s) (is_num_open_conds s)
                 new_unexpanded_steps (is_num_unexpanded_steps s - 1)
                 (mutex_threats p))"
              unfolding expansion_of_def using r news(2,3) by (auto simp: Plan_def)
            with pl show ?thesis by blast
          qed
        qed
      qed
    qed
  qed
qed

text \<open>
  The runs of \<^verbatim>\<open>add_decomposition_frame\<close> that return: the three ways to the label
  \<^verbatim>\<open>fail\<close>, and the one to the new plan.
\<close>

lemma add_decomposition_frame_cases:
  assumes res: "add_decomposition_frame env p plans unexpanded d g po = Inr (plans', g', po')"
  obtains
    (steps_failed) g1 nb where
      "install_steps env p po (num_steps p) [0 ..< length (f_steps (DecompositionFrame d))]
         \<lparr>is_instance = DecompositionFrame d, is_steps = steps p,
          is_num_steps = num_steps p, is_unexpanded_steps = unexpanded_steps p,
          is_num_unexpanded_steps = num_unexpanded_steps p,
          is_open_conds = open_conds p, is_num_open_conds = num_open_conds p,
          is_bindings = bindings p, is_globals = g\<rparr> = Inr (Failed g1 nb)"
      "expansion_failed p plans g1 po nb (orderings p) = Inr (plans', g', po')"
  | (bindings_failed) s where
      "install_steps env p po (num_steps p) [0 ..< length (f_steps (DecompositionFrame d))]
         \<lparr>is_instance = DecompositionFrame d, is_steps = steps p,
          is_num_steps = num_steps p, is_unexpanded_steps = unexpanded_steps p,
          is_num_unexpanded_steps = num_unexpanded_steps p,
          is_open_conds = open_conds p, is_num_open_conds = num_open_conds p,
          is_bindings = bindings p, is_globals = g\<rparr> = Inr (Done s)"
      "bindings_add env (is_bindings s) (f_binding_list (is_instance s)) False = None"
      "expansion_failed p plans (is_globals s) po None (orderings p) = Inr (plans', g', po')"
  | (orderings_failed) s nb ords po1 where
      "install_steps env p po (num_steps p) [0 ..< length (f_steps (DecompositionFrame d))]
         \<lparr>is_instance = DecompositionFrame d, is_steps = steps p,
          is_num_steps = num_steps p, is_unexpanded_steps = unexpanded_steps p,
          is_num_unexpanded_steps = num_unexpanded_steps p,
          is_open_conds = open_conds p, is_num_open_conds = num_open_conds p,
          is_bindings = bindings p, is_globals = g\<rparr> = Inr (Done s)"
      "bindings_add env (is_bindings s) (f_binding_list (is_instance s)) False = Some nb"
      "install_orderings env p po unexpanded (is_instance s) nb = Inr (False, ords, po1)"
      "expansion_failed p plans (is_globals s) po1 (Some nb) ords = Inr (plans', g', po')"
  | (added) s nb ords nus where
      "install_steps env p po (num_steps p) [0 ..< length (f_steps (DecompositionFrame d))]
         \<lparr>is_instance = DecompositionFrame d, is_steps = steps p,
          is_num_steps = num_steps p, is_unexpanded_steps = unexpanded_steps p,
          is_num_unexpanded_steps = num_unexpanded_steps p,
          is_open_conds = open_conds p, is_num_open_conds = num_open_conds p,
          is_bindings = bindings p, is_globals = g\<rparr> = Inr (Done s)"
      "bindings_add env (is_bindings s) (f_binding_list (is_instance s)) False = Some nb"
      "install_orderings env p po unexpanded (is_instance s) nb = Inr (True, ords, po')"
      "chain_remove unexpanded (is_unexpanded_steps s) = Inr nus"
      "plans' = plans @ [Plan (is_steps s) (is_num_steps s)
         (rev (f_link_list (is_instance s)) @ links p)
         (through_int (num_links p) (length (f_link_list (is_instance s))))
         ords nb
         (DecompositionFrame d # decomposition_frames p)
         (through_int (num_decomposition_frames p + 1) 0)
         (DecompositionLink (ucs_step_id unexpanded) (DecompositionFrame d)
            # decomposition_links p)
         (num_decomposition_links p + 1)
         (unsafes p) (num_unsafes p)
         (is_open_conds s) (is_num_open_conds s)
         nus (is_num_unexpanded_steps s - 1)
         (mutex_threats p)]"
proof -
  let ?is = "install_steps env p po (num_steps p) [0 ..< length (f_steps (DecompositionFrame d))]
             \<lparr>is_instance = DecompositionFrame d, is_steps = steps p,
              is_num_steps = num_steps p, is_unexpanded_steps = unexpanded_steps p,
              is_num_unexpanded_steps = num_unexpanded_steps p,
              is_open_conds = open_conds p, is_num_open_conds = num_open_conds p,
              is_bindings = bindings p, is_globals = g\<rparr>"
  show ?thesis
  proof (cases ?is)
    case (Inl e)
    with res show ?thesis unfolding add_decomposition_frame_def Let_def by simp
  next
    case (Inr out)
    show ?thesis
    proof (cases out)
      case (Failed g1 nb)
      with Inr res
      have "expansion_failed p plans g1 po nb (orderings p) = Inr (plans', g', po')"
        unfolding add_decomposition_frame_def Let_def by simp
      with Inr Failed show ?thesis by (intro steps_failed) simp_all
    next
      case (Done s)
      show ?thesis
      proof (cases "bindings_add env (is_bindings s) (f_binding_list (is_instance s)) False")
        case None
        with Inr Done res
        have "expansion_failed p plans (is_globals s) po None (orderings p)
            = Inr (plans', g', po')"
          unfolding add_decomposition_frame_def Let_def by (simp split: if_splits)
        with Inr Done None show ?thesis by (intro bindings_failed) simp_all
      next
        case (Some nb)
        show ?thesis
        proof (cases "install_orderings env p po unexpanded (is_instance s) nb")
          case (Inl e)
          with Inr Done Some res show ?thesis
            unfolding add_decomposition_frame_def Let_def by (simp split: if_splits)
        next
          case io: (Inr t)
          obtain ok ords po1 where t: "t = (ok, ords, po1)" by (cases t)
          show ?thesis
          proof (cases ok)
            case False
            with Inr Done Some io t res
            have "expansion_failed p plans (is_globals s) po1 (Some nb) ords
                = Inr (plans', g', po')"
              unfolding add_decomposition_frame_def Let_def by (simp split: if_splits)
            with Inr Done Some io t False show ?thesis
              by (intro orderings_failed) simp_all
          next
            case True
            with Inr Done Some io t res obtain nus where
              rem: "chain_remove unexpanded (is_unexpanded_steps s) = Inr nus"
              and pl: "plans' = plans @ [Plan (is_steps s) (is_num_steps s)
                 (rev (f_link_list (is_instance s)) @ links p)
                 (through_int (num_links p) (length (f_link_list (is_instance s))))
                 ords nb
                 (DecompositionFrame d # decomposition_frames p)
                 (through_int (num_decomposition_frames p + 1) 0)
                 (DecompositionLink (ucs_step_id unexpanded) (DecompositionFrame d)
                    # decomposition_links p)
                 (num_decomposition_links p + 1)
                 (unsafes p) (num_unsafes p)
                 (is_open_conds s) (is_num_open_conds s)
                 nus (is_num_unexpanded_steps s - 1)
                 (mutex_threats p)]"
              and po: "po' = po1"
              unfolding add_decomposition_frame_def Let_def
              by (cases "chain_remove unexpanded (is_unexpanded_steps s)")
                 (simp_all split: if_splits)
            with Inr Done Some io t True show ?thesis by (intro added) simp_all
          qed
        qed
      qed
    qed
  qed
qed

lemma expansion_failed_plans:
  "expansion_failed p plans g po nb ords = Inr (plans', g', po') \<Longrightarrow> plans' = plans"
  by (auto simp: expansion_failed_def split: sum.splits)

text \<open>A run on a plan whose objects are alive adds no plan exactly when the construction fails.\<close>

lemma add_decomposition_frame_fails:
  assumes res: "add_decomposition_frame env p plans unexpanded d g all_alive
                  = Inr (plans', g', po')"
  shows "construction_fails env p unexpanded d g \<longleftrightarrow> plans' = plans"
  using res
proof (cases rule: add_decomposition_frame_cases)
  case (steps_failed g1 nb)
  then show ?thesis by (simp add: construction_fails_def expansion_failed_plans)
next
  case (bindings_failed s)
  then show ?thesis by (simp add: construction_fails_def expansion_failed_plans)
next
  case (orderings_failed s nb ords po1)
  then show ?thesis by (simp add: construction_fails_def expansion_failed_plans)
next
  case (added s nb ords nus)
  then show ?thesis by (simp add: construction_fails_def)
qed

text \<open>What a run adds does not depend on the plans that are there already.\<close>

lemma expansion_failed_append:
  "expansion_failed p plans g po nb ords
     = (case expansion_failed p [] g po nb ords of
          Inl e \<Rightarrow> Inl e
        | Inr (one, g', po') \<Rightarrow> Inr (plans @ one, g', po'))"
  by (simp add: expansion_failed_def split: sum.splits option.splits)

lemma add_decomposition_frame_append:
  "add_decomposition_frame env p plans unexpanded d g po
     = (case add_decomposition_frame env p [] unexpanded d g po of
          Inl e \<Rightarrow> Inl e
        | Inr (one, g', po') \<Rightarrow> Inr (plans @ one, g', po'))"
proof -
  let ?is = "install_steps env p po (num_steps p) [0 ..< length (f_steps (DecompositionFrame d))]
             \<lparr>is_instance = DecompositionFrame d, is_steps = steps p,
              is_num_steps = num_steps p, is_unexpanded_steps = unexpanded_steps p,
              is_num_unexpanded_steps = num_unexpanded_steps p,
              is_open_conds = open_conds p, is_num_open_conds = num_open_conds p,
              is_bindings = bindings p, is_globals = g\<rparr>"
  show ?thesis
  proof (cases ?is)
    case (Inl e)
    then show ?thesis unfolding add_decomposition_frame_def Let_def by simp
  next
    case (Inr out)
    show ?thesis
    proof (cases out)
      case (Failed g1 nb)
      with Inr show ?thesis
        unfolding add_decomposition_frame_def Let_def
        by (simp add: expansion_failed_append[of p plans])
    next
      case (Done s)
      show ?thesis
      proof (cases "bindings_usable p po (is_bindings s)")
        case False
        with Inr Done show ?thesis unfolding add_decomposition_frame_def Let_def by simp
      next
        case usable: True
        show ?thesis
        proof (cases "bindings_add env (is_bindings s) (f_binding_list (is_instance s)) False")
          case None
          with Inr Done usable show ?thesis
            unfolding add_decomposition_frame_def Let_def
            by (simp add: expansion_failed_append[of p plans])
        next
          case (Some nb)
          show ?thesis
          proof (cases "install_orderings env p po unexpanded (is_instance s) nb")
            case (Inl e)
            with Inr Done usable Some show ?thesis
              unfolding add_decomposition_frame_def Let_def by simp
          next
            case io: (Inr t)
            obtain ok ords po1 where t: "t = (ok, ords, po1)" by (cases t)
            show ?thesis
            proof (cases ok)
              case False
              with Inr Done usable Some io t show ?thesis
                unfolding add_decomposition_frame_def Let_def
                by (simp add: expansion_failed_append[of p plans])
            next
              case True
              with Inr Done usable Some io t show ?thesis
                unfolding add_decomposition_frame_def Let_def
                by (cases "chain_remove unexpanded (is_unexpanded_steps s)") simp_all
            qed
          qed
        qed
      qed
    qed
  qed
qed

lemma add_decomposition_frames_expansions_eq:
  "add_decomposition_frames env p plans unexpanded ds g po
     = (case expansions env p unexpanded ds g po of
          Inl e \<Rightarrow> Inl e
        | Inr (news, g', po') \<Rightarrow> Inr (plans @ news, g', po'))"
proof (induction ds arbitrary: plans g po)
  case Nil
  show ?case by simp
next
  case (Cons d ds)
  show ?case
  proof (cases "add_decomposition_frame env p [] unexpanded d g po")
    case (Inl e)
    then show ?thesis by (simp add: add_decomposition_frame_append[of env p plans])
  next
    case (Inr r)
    obtain one g1 po1 where r: "r = (one, g1, po1)" by (cases r)
    have "add_decomposition_frame env p plans unexpanded d g po = Inr (plans @ one, g1, po1)"
      using Inr r by (simp add: add_decomposition_frame_append[of env p plans])
    then show ?thesis
      using Inr r Cons.IH[of "plans @ one" g1 po1]
      by (simp split: sum.splits)
  qed
qed

text \<open>
  The loop over the decompositions returns only when every run but the last
  has added a successor and left the orderings of the plan alone.
\<close>

lemma add_decomposition_frames_expansions:
  assumes res: "add_decomposition_frames env p plans unexpanded ds g po = Inr (plans', g', po')"
    and flaw: "unexpanded \<in> set (unexpanded_steps p)"
    and old: "ucs_step_id unexpanded \<le> num_steps p"
  shows "\<exists>news. plans' = plans @ news
           \<and> (list_all2 (\<lambda>p' d'. expansion_of p unexpanded d' p') news ds
              \<or> (ds \<noteq> [] \<and> orderings_deleted po'
                 \<and> list_all2 (\<lambda>p' d'. expansion_of p unexpanded d' p') news (butlast ds)))"
  using res
proof (induction ds arbitrary: plans g po)
  case Nil
  then show ?case by simp
next
  case (Cons d ds)
  from Cons.prems obtain plans1 g1 po1 where
    one: "add_decomposition_frame env p plans unexpanded d g po = Inr (plans1, g1, po1)"
    and rest: "add_decomposition_frames env p plans1 unexpanded ds g1 po1 = Inr (plans', g', po')"
    by (auto split: sum.splits)
  show ?case
  proof (cases ds)
    case Nil
    with rest have e: "plans' = plans1" "po' = po1" by simp_all
    from add_decomposition_frame_expansion[OF one flaw old] show ?thesis
    proof
      assume "plans1 = plans \<and> orderings_deleted po1"
      with e Nil show ?thesis by simp
    next
      assume "\<exists>p'. plans1 = plans @ [p'] \<and> expansion_of p unexpanded d p'"
      with e Nil show ?thesis by auto
    qed
  next
    case (Cons d2 ds2)
    have alive: "\<not> orderings_deleted po1"
    proof
      assume dead: "orderings_deleted po1"
      from rest Cons obtain r where
        "add_decomposition_frame env p plans1 unexpanded d2 g1 po1 = Inr r"
        by (auto split: sum.splits)
      then show False by (rule add_decomposition_frame_dead[OF dead, THEN notE])
    qed
    with add_decomposition_frame_expansion[OF one flaw old]
    obtain p1 where p1: "plans1 = plans @ [p1]" "expansion_of p unexpanded d p1" by blast
    from Cons.IH[OF rest] obtain news where
      news: "plans' = plans1 @ news"
        "list_all2 (\<lambda>p' d'. expansion_of p unexpanded d' p') news ds
         \<or> (ds \<noteq> [] \<and> orderings_deleted po'
            \<and> list_all2 (\<lambda>p' d'. expansion_of p unexpanded d' p') news (butlast ds))"
      by blast
    show ?thesis
      using news p1 Cons by (intro exI[of _ "p1 # news"]) auto
  qed
qed

text \<open>
  C9: for an unexpanded composite step of the plan, the planner looks up every
  decomposition that the multimap of composite achievers holds for the action
  of the step, and for each of them, in turn, emits one successor plan unless
  the construction fails on an inconsistency; in a successor the flaw has been
  removed and a new decomposition link whose \<^verbatim>\<open>composite_id\<close> is the step id of
  the flaw, together with the instantiated frame, has been added.  In full:
  the plans that the operator adds are those that the constructions add, one
  decomposition after the other; a construction from the plan with its objects
  alive that returns adds nothing, and deletes the orderings of the plan, when
  it fails, and adds one such successor when it does not; a construction from
  the plan with its orderings deleted does not return.  So in a run of the
  operator that returns there is one successor for every applicable
  decomposition, but possibly the last.
\<close>

theorem handle_unexpanded_composite_step_expansions:
  assumes flaw: "unexpanded \<in> set (unexpanded_steps p)"
    and old: "ucs_step_id unexpanded \<le> num_steps p"
  shows "handle_unexpanded_composite_step env p plans unexpanded g po
           = (case expansions env p unexpanded (applicable_decompositions env unexpanded) g po of
                Inl e \<Rightarrow> Inl e
              | Inr (news, g', po') \<Rightarrow> Inr (plans @ news, g', po'))
         \<and> (\<forall>d g1 one g' po'.
               add_decomposition_frame env p [] unexpanded d g1 all_alive = Inr (one, g', po')
               \<longrightarrow> (if construction_fails env p unexpanded d g1
                    then one = [] \<and> orderings_deleted po'
                    else \<exists>p'. one = [p'] \<and> expansion_of p unexpanded d p'))
         \<and> (\<forall>d g1 po1 plans1.
               orderings_deleted po1
               \<longrightarrow> (\<exists>e. add_decomposition_frame env p plans1 unexpanded d g1 po1 = Inl e))
         \<and> (\<forall>plans' g' po'.
               handle_unexpanded_composite_step env p plans unexpanded g all_alive
                 = Inr (plans', g', po')
               \<longrightarrow> (\<exists>news. plans' = plans @ news
                      \<and> (list_all2 (\<lambda>p' d'. expansion_of p unexpanded d' p') news
                            (applicable_decompositions env unexpanded)
                         \<or> (applicable_decompositions env unexpanded \<noteq> []
                            \<and> orderings_deleted po'
                            \<and> list_all2 (\<lambda>p' d'. expansion_of p unexpanded d' p') news
                                (butlast (applicable_decompositions env unexpanded))))))"
proof (intro conjI allI impI)
  show "handle_unexpanded_composite_step env p plans unexpanded g po
           = (case expansions env p unexpanded (applicable_decompositions env unexpanded) g po of
                Inl e \<Rightarrow> Inl e
              | Inr (news, g', po') \<Rightarrow> Inr (plans @ news, g', po'))"
    unfolding handle_unexpanded_composite_step_def
    by (rule add_decomposition_frames_expansions_eq)
next
  fix d g1 one g' po'
  assume one: "add_decomposition_frame env p [] unexpanded d g1 all_alive = Inr (one, g', po')"
  from add_decomposition_frame_fails[OF one]
  have f: "construction_fails env p unexpanded d g1 \<longleftrightarrow> one = []" .
  from add_decomposition_frame_expansion[OF one flaw old]
  have "(one = [] \<and> orderings_deleted po')
      \<or> (\<exists>p'. one = [p'] \<and> expansion_of p unexpanded d p')" by simp
  with f show "if construction_fails env p unexpanded d g1
      then one = [] \<and> orderings_deleted po'
      else \<exists>p'. one = [p'] \<and> expansion_of p unexpanded d p'"
    by auto
next
  fix d g1 and po1 :: parent_objects and plans1 :: "('a, 'b) plan list"
  assume dead: "orderings_deleted po1"
  show "\<exists>e. add_decomposition_frame env p plans1 unexpanded d g1 po1 = Inl e"
  proof (cases "add_decomposition_frame env p plans1 unexpanded d g1 po1")
    case (Inl e)
    then show ?thesis by blast
  next
    case (Inr r)
    then show ?thesis by (rule add_decomposition_frame_dead[OF dead, THEN notE])
  qed
next
  fix plans' g' po'
  assume "handle_unexpanded_composite_step env p plans unexpanded g all_alive
            = Inr (plans', g', po')"
  then have "add_decomposition_frames env p plans unexpanded
      (applicable_decompositions env unexpanded) g all_alive = Inr (plans', g', po')"
    by (simp add: handle_unexpanded_composite_step_def)
  from add_decomposition_frames_expansions[OF this flaw old]
  show "\<exists>news. plans' = plans @ news
      \<and> (list_all2 (\<lambda>p' d'. expansion_of p unexpanded d' p') news
            (applicable_decompositions env unexpanded)
         \<or> (applicable_decompositions env unexpanded \<noteq> []
            \<and> orderings_deleted po'
            \<and> list_all2 (\<lambda>p' d'. expansion_of p unexpanded d' p') news
                (butlast (applicable_decompositions env unexpanded))))" .
qed

theorem handle_unexpanded_composite_step_expansions_witness:
  "\<exists>p1 p2. handle_unexpanded_composite_step sample_two_env sample_composite_plan []
              (UnexpandedCompositeStep (Step 1 sample_travel))
              \<lparr>rand_calls = 0, num_variables = 0\<rparr> all_alive
            = Inr ([p1, p2], \<lparr>rand_calls = 0, num_variables = 0\<rparr>, all_alive)
          \<and> expansion_of sample_composite_plan (UnexpandedCompositeStep (Step 1 sample_travel))
              sample_drive p1
          \<and> expansion_of sample_composite_plan (UnexpandedCompositeStep (Step 1 sample_travel))
              sample_walk p2"
proof -
  let ?u = "UnexpandedCompositeStep (Step 1 sample_travel)"
  let ?g = "\<lparr>rand_calls = 0, num_variables = 0\<rparr>"
  have ds: "applicable_decompositions sample_two_env ?u = [sample_drive, sample_walk]"
    by (simp add: applicable_decompositions_def sample_two_env_def sample_move_def
        sample_travel_def Step_def)
  have "\<exists>p1 p2. handle_unexpanded_composite_step sample_two_env sample_composite_plan [] ?u ?g
          all_alive = Inr ([p1, p2], ?g, all_alive)"
    unfolding handle_unexpanded_composite_step_def ds
    by (simp add: add_decomposition_frame_def DecompositionFrame_def sample_drive_def
        sample_walk_def sample_two_env_def sample_composite_plan_def Plan_def Let_def
        add_goal_def sample_move_def Step_def install_orderings_def swap_steps_def
        incoming_links_def chain_remove_def all_alive_def bindings_usable_def
        orderings_usable_def)
  then obtain p1 p2 where
    ev: "handle_unexpanded_composite_step sample_two_env sample_composite_plan [] ?u ?g all_alive
           = Inr ([p1, p2], ?g, all_alive)"
    by blast
  have flaw: "?u \<in> set (unexpanded_steps sample_composite_plan)"
    by (simp add: sample_composite_plan_def Plan_def)
  have old: "ucs_step_id ?u \<le> num_steps sample_composite_plan"
    by (simp add: sample_composite_plan_def Plan_def Step_def)
  from handle_unexpanded_composite_step_expansions[OF flaw old,
      where env = sample_two_env and plans = "[]" and g = ?g] ev
  obtain news where n: "[p1, p2] = [] @ news"
    "list_all2 (\<lambda>p' d'. expansion_of sample_composite_plan ?u d' p') news
       [sample_drive, sample_walk]
     \<or> (orderings_deleted all_alive
        \<and> list_all2 (\<lambda>p' d'. expansion_of sample_composite_plan ?u d' p') news
            (butlast [sample_drive, sample_walk]))"
    unfolding ds by blast
  from n(1) have news: "news = [p1, p2]" by simp
  with n(2) have "expansion_of sample_composite_plan ?u sample_drive p1
      \<and> expansion_of sample_composite_plan ?u sample_walk p2"
    by (simp add: all_alive_def)
  with ev show ?thesis by blast
qed

text \<open>
  Two decompositions, the first of which comes with a binding that the
  bindings of the plan do not accept: its construction fails and deletes the
  orderings of the plan.  The construction for the second decomposition, which
  on its own adds a successor, then uses the deleted orderings.
\<close>

theorem handle_unexpanded_composite_step_deleted_orderings:
  "handle_unexpanded_composite_step sample_strict_env sample_composite_plan []
     (UnexpandedCompositeStep (Step 1 sample_travel))
     \<lparr>rand_calls = 0, num_variables = 0\<rparr> all_alive = Inl DeletedObject
   \<and> applicable_decompositions sample_strict_env (UnexpandedCompositeStep (Step 1 sample_travel))
       = [sample_fly, sample_drive]
   \<and> add_decomposition_frame sample_strict_env sample_composite_plan []
       (UnexpandedCompositeStep (Step 1 sample_travel)) sample_fly
       \<lparr>rand_calls = 0, num_variables = 0\<rparr> all_alive
     = Inr ([], \<lparr>rand_calls = 0, num_variables = 0\<rparr>,
            \<lparr>bindings_deleted = False, orderings_deleted = True\<rparr>)
   \<and> (\<exists>p'. add_decomposition_frame sample_strict_env sample_composite_plan []
              (UnexpandedCompositeStep (Step 1 sample_travel)) sample_drive
              \<lparr>rand_calls = 0, num_variables = 0\<rparr> all_alive
            = Inr ([p'], \<lparr>rand_calls = 0, num_variables = 0\<rparr>, all_alive))"
  unfolding handle_unexpanded_composite_step_def applicable_decompositions_def
  by (simp add: add_decomposition_frame_def DecompositionFrame_def sample_drive_def
      sample_fly_def sample_strict_env_def sample_composite_plan_def Plan_def Let_def
      add_goal_def sample_move_def sample_travel_def Step_def install_orderings_def
      swap_steps_def incoming_links_def chain_remove_def all_alive_def bindings_usable_def
      orderings_usable_def expansion_failed_def delete_orderings_def delete_bindings_def
      Binding_def)

subsection \<open>Flaw counts and flaw chains\<close>

lemma all_added_same: "all_added P plans (Inr (plans, g))"
  by (simp add: all_added_def)

lemma all_added_one: "P x \<Longrightarrow> all_added P plans (Inr (plans @ [x], g))"
  by (simp add: all_added_def)

lemma all_added_error: "all_added P plans (Inl e)"
  by (simp add: all_added_def)



lemma count_remove1:
  fixes n :: size_t
  assumes "x \<in> set xs" and "n = of_nat (length xs)"
  shows "n - 1 = of_nat (length (remove1 x xs))"
proof -
  from assms(1) have "length xs = Suc (length (remove1 x xs))"
    by (simp add: length_remove1) (cases xs, auto)
  then show ?thesis using assms(2) by simp
qed

lemma add_goal_step_counted:
  assumes "\<not> strip_static_preconditions env"
    and "goal_vars_counted st"
    and "add_goal_step env step_id False goal goals st = Inr (goals', st')"
  shows "goal_vars_counted st'"
  using assms
  by (cases goal)
     (auto simp: goal_vars_counted_def add_literal_goal_def Let_def split: prod.splits)

lemma add_goal_loop_counted:
  "\<not> strip_static_preconditions env \<Longrightarrow> \<not> test_only \<Longrightarrow> goal_vars_counted st \<Longrightarrow>
   add_goal_loop env step_id test_only goals st = Inr st' \<Longrightarrow> goal_vars_counted st'"
proof (induction env step_id test_only goals st rule: add_goal_loop.induct)
  case (1 env step_id test_only goals st)
  show ?case
  proof (cases "goals = []")
    case True
    with "1.prems" show ?thesis by (simp add: add_goal_loop.simps)
  next
    case False
    from "1.prems"(4) False obtain goals1 st1 where
      s: "add_goal_step env step_id test_only (last goals) (butlast goals) st = Inr (goals1, st1)"
      and r: "add_goal_loop env step_id test_only goals1 st1 = Inr st'"
      by (subst (asm) add_goal_loop.simps) (auto split: sum.splits)
    have c1: "goal_vars_counted st1"
      using add_goal_step_counted[OF "1.prems"(1) "1.prems"(3)] s "1.prems"(2) by simp
    from "1.IH"[OF False s refl "1.prems"(1) "1.prems"(2) c1 r] show ?thesis .
  qed
qed

lemma add_goal_counted:
  assumes "\<not> strip_static_preconditions env"
    and "goal_vars_counted st"
    and "add_goal env st goal step_id False = Inr (added, st')"
  shows "goal_vars_counted st'"
  using assms add_goal_loop_counted[of env False st step_id "[goal]"]
  by (auto simp: add_goal_def split: if_splits sum.splits)

lemma effect_threats_counted:
  "n = of_nat (length us) \<Longrightarrow> effect_threats env ords bnds lnk sid effs (us, n) = (us', n')
     \<Longrightarrow> n' = of_nat (length us')"
proof (induction effs arbitrary: us n)
  case Nil
  then show ?case by (auto simp: effect_threats_def)
next
  case (Cons e effs)
  show ?case
  proof (cases "effect_threatens env ords bnds lnk sid e")
    case True
    have c: "n + 1 = of_nat (length (Unsafe lnk sid e # us))" using Cons.prems(1) by simp
    have "effect_threats env ords bnds lnk sid effs (Unsafe lnk sid e # us, n + 1) = (us', n')"
      using Cons.prems(2) True by (simp add: effect_threats_def)
    from Cons.IH[OF c this] show ?thesis .
  next
    case False
    have "effect_threats env ords bnds lnk sid effs (us, n) = (us', n')"
      using Cons.prems(2) False by (simp add: effect_threats_def)
    from Cons.IH[OF Cons.prems(1) this] show ?thesis .
  qed
qed

lemma link_threats_counted:
  "n = of_nat (length us) \<Longrightarrow> link_threats env (us, n) lnk stps ords bnds = (us', n')
     \<Longrightarrow> n' = of_nat (length us')"
  unfolding link_threats_def
proof (induction stps arbitrary: us n)
  case Nil
  then show ?case by auto
next
  case (Cons s stps)
  show ?case
  proof (cases "step_may_threaten env ords lnk (s_id s)")
    case False
    with Cons show ?thesis by simp
  next
    case True
    obtain us1 n1 where e: "effect_threats env ords bnds lnk (s_id s) (a_effects (s_action s)) (us, n)
        = (us1, n1)"
      by (cases "effect_threats env ords bnds lnk (s_id s) (a_effects (s_action s)) (us, n)")
    from effect_threats_counted[OF Cons.prems(1) e] have "n1 = of_nat (length us1)" .
    from Cons.IH[OF this] Cons.prems(2) True e show ?thesis by simp
  qed
qed

lemma step_threats_counted:
  "n = of_nat (length us) \<Longrightarrow> step_threats env (us, n) stp lnks ords bnds = (us', n')
     \<Longrightarrow> n' = of_nat (length us')"
  unfolding step_threats_def
proof (induction lnks arbitrary: us n)
  case Nil
  then show ?case by auto
next
  case (Cons l lnks)
  show ?case
  proof (cases "step_may_threaten env ords l (s_id stp)")
    case False
    with Cons show ?thesis by simp
  next
    case True
    obtain us1 n1 where e: "effect_threats env ords bnds l (s_id stp) (a_effects (s_action stp)) (us, n)
        = (us1, n1)"
      by (cases "effect_threats env ords bnds l (s_id stp) (a_effects (s_action stp)) (us, n)")
    from effect_threats_counted[OF Cons.prems(1) e] have "n1 = of_nat (length us1)" .
    from Cons.IH[OF this] Cons.prems(2) True e show ?thesis by simp
  qed
qed


lemma threats_and_goals_counted_Plan:
  "nus = of_nat (length us) \<Longrightarrow> noc = of_nat (length ocs) \<Longrightarrow>
   threats_and_goals_counted
     (Plan stps ns lnks nl ords bnds dfs ndf dls ndl us nus ocs noc uns nun mts)"
  by (simp add: threats_and_goals_counted_def unsafes_counted_def open_conds_counted_def Plan_def)



lemma goal_vars_counted_removed:
  "open_conds_counted p \<Longrightarrow> oc \<in> set (open_conds p) \<Longrightarrow>
   goal_vars_counted \<lparr>gv_open_conds = remove1 oc (open_conds p),
                      gv_num_open_conds = num_open_conds p - 1,
                      gv_new_bindings = nb, gv_globals = g\<rparr>"
  using count_remove1[of oc "open_conds p" "num_open_conds p"]
  by (simp add: goal_vars_counted_def open_conds_counted_def)


















lemma link_plan_counted:
  assumes par: "flaws_counted p"
    and oc: "noc = of_nat (length ocs)"
  shows "link_counted p stp (link_plan env p stp eff open_cond stps ns ords bnds ocs noc)"
proof -
  have u: "num_unsafes p = of_nat (length (unsafes p))"
    using par by (simp add: flaws_counted_def unsafes_counted_def)
  have un: "num_unexpanded_steps p = of_nat (length (unexpanded_steps p))"
    using par by (simp add: flaws_counted_def unexpanded_steps_counted_def)
  obtain us1 n1 where a1: "link_threats env (unsafes p, num_unsafes p)
      (Link (s_id stp) (end_time_effect env eff) open_cond) stps ords bnds = (us1, n1)"
    by (cases "link_threats env (unsafes p, num_unsafes p)
      (Link (s_id stp) (end_time_effect env eff) open_cond) stps ords bnds")
  have c1: "n1 = of_nat (length us1)" by (rule link_threats_counted[OF u a1])
  obtain us2 n2 where a2: "step_threats env (us1, n1) stp (links p) ords bnds = (us2, n2)"
    by (cases "step_threats env (us1, n1) stp (links p) ords bnds")
  have c2: "n2 = of_nat (length us2)" by (rule step_threats_counted[OF c1 a2])
  show ?thesis
  proof (cases "s_id stp > num_steps p")
    case True
    have "link_plan env p stp eff open_cond stps ns ords bnds ocs noc
        = Plan stps ns (Link (s_id stp) (end_time_effect env eff) open_cond # links p)
            (num_links p + 1) ords bnds
            (decomposition_frames p) (num_decomposition_frames p)
            (decomposition_links p) (num_decomposition_links p)
            us2 n2 ocs noc
            (if a_composite (s_action stp)
             then UnexpandedCompositeStep stp # unexpanded_steps p else unexpanded_steps p)
            (if a_composite (s_action stp)
             then num_unexpanded_steps p + 1 else num_unexpanded_steps p)
            (mutex_threats p)"
      unfolding link_plan_def Let_def using True by (simp add: a1 a2)
    then show ?thesis
      using True
      by (simp add: c2 oc un link_counted_def unsafes_counted_def open_conds_counted_def
          unexpanded_steps_counted_def Plan_def)
  next
    case False
    have "link_plan env p stp eff open_cond stps ns ords bnds ocs noc
        = Plan stps ns (Link (s_id stp) (end_time_effect env eff) open_cond # links p)
            (num_links p + 1) ords bnds
            (decomposition_frames p) (num_decomposition_frames p)
            (decomposition_links p) (num_decomposition_links p)
            us1 n1 ocs noc [] (num_unexpanded_steps p) (mutex_threats p)"
      unfolding link_plan_def Let_def using False by (simp add: a1)
    then show ?thesis
      using False
      by (simp add: c1 oc link_counted_def unsafes_counted_def open_conds_counted_def Plan_def)
  qed
qed

lemma make_link_step_counted:
  assumes ns: "\<not> strip_static_preconditions env"
    and par: "flaws_counted p"
    and st: "goal_vars_counted st"
  shows "all_added (link_counted p stp) plans
           (drop_count (make_link_step env p plans stp eff open_cond cond_goal False st))"
proof -
  let ?A = "if s_id stp > num_steps p
            then add_goal env st (a_condition (s_action stp)) (s_id stp) False
            else Inr (True, st)"
  show ?thesis
  proof (cases ?A)
    case (Inl e)
    then show ?thesis
      unfolding make_link_step_def Let_def by (simp add: drop_count_def all_added_def)
  next
    case (Inr r)
    obtain added st1 where r: "r = (added, st1)" by (cases r)
    have "goal_vars_counted st1"
      using Inr r st add_goal_counted[OF ns st] by (auto split: if_splits)
    then have c: "gv_num_open_conds st1 = of_nat (length (gv_open_conds st1))"
      by (simp add: goal_vars_counted_def)
    have lp: "\<And>stps n ords bnds. link_counted p stp
        (link_plan env p stp eff open_cond stps n ords bnds
           (gv_open_conds st1) (gv_num_open_conds st1))"
      by (rule link_plan_counted[OF par c])
    show ?thesis
      unfolding make_link_step_def Let_def using Inr r
      by (simp add: drop_count_def all_added_def lp split: option.splits prod.splits)
  qed
qed

lemma make_link_counted:
  assumes ns: "\<not> strip_static_preconditions env"
    and par: "flaws_counted p"
    and flaw: "open_cond \<in> set (open_conds p)"
  shows "all_added (link_counted p stp) plans
           (drop_count (make_link env p plans stp eff lit open_cond unifier False g))"
proof -
  have oc: "open_conds_counted p" using par by (simp add: flaws_counted_def)
  have ne: "open_conds p \<noteq> []" using flaw by auto
  obtain nb fs g0 where lb: "link_bindings env eff unifier False g = (nb, fs, g0)"
    by (cases "link_bindings env eff unifier False g")
  let ?st0 = "\<lparr>gv_open_conds = remove1 open_cond (open_conds p),
               gv_num_open_conds = num_open_conds p - 1,
               gv_new_bindings = nb, gv_globals = g0\<rparr>"
  have c0: "goal_vars_counted ?st0" by (rule goal_vars_counted_removed[OF oc flaw])
  let ?cg0 = "formula_and env (e_condition eff) (e_link_condition eff)"
  show ?thesis
  proof (cases "tautology ?cg0")
    case True
    have "make_link env p plans stp eff lit open_cond unifier False g
        = make_link_step env p plans stp eff open_cond ?cg0 False ?st0"
      unfolding make_link_def Let_def using True lb ne by (simp add: chain_remove_def)
    then show ?thesis using make_link_step_counted[OF ns par c0] by simp
  next
    case False
    obtain cg g1 where lc: "link_condition_goal env eff ?cg0 fs False g0 = (cg, g1)"
      by (cases "link_condition_goal env eff ?cg0 fs False g0")
    have c1: "goal_vars_counted (?st0\<lparr>gv_globals := g1\<rparr>)"
      using c0 by (simp add: goal_vars_counted_def)
    have eq: "make_link env p plans stp eff lit open_cond unifier False g
        = (case add_goal env (?st0\<lparr>gv_globals := g1\<rparr>) cg (s_id stp) False of
             Inl e \<Rightarrow> Inl e
           | Inr (added, st1) \<Rightarrow>
               if \<not> added then Inr (0, plans, gv_globals st1)
               else make_link_step env p plans stp eff open_cond cg False st1)"
      unfolding make_link_def Let_def using False lb lc ne by (simp add: chain_remove_def)
    show ?thesis
    proof (cases "add_goal env (?st0\<lparr>gv_globals := g1\<rparr>) cg (s_id stp) False")
      case (Inl e)
      then show ?thesis unfolding eq by (simp add: drop_count_def all_added_def)
    next
      case (Inr r)
      obtain added st1 where r: "r = (added, st1)" by (cases r)
      have c2: "goal_vars_counted st1"
        using add_goal_counted[OF ns c1] Inr r by simp
      show ?thesis
      proof (cases added)
        case False
        then show ?thesis unfolding eq using Inr r by (simp add: drop_count_def all_added_def)
      next
        case True
        then show ?thesis unfolding eq using Inr r make_link_step_counted[OF ns par c2]
          by simp
      qed
    qed
  qed
qed

lemma new_link_counted:
  assumes ns: "\<not> strip_static_preconditions env"
    and par: "flaws_counted p"
    and flaw: "open_cond \<in> set (open_conds p)"
  shows "all_added (link_counted p stp) plans
           (drop_count (new_link env p plans stp eff lit open_cond False g))"
  unfolding new_link_def
  using make_link_counted[OF ns par flaw]
  by (auto simp: drop_count_def all_added_def split: option.splits)

lemma new_link_added:
  assumes ns: "\<not> strip_static_preconditions env"
    and par: "flaws_counted p"
    and flaw: "open_cond \<in> set (open_conds p)"
    and res: "new_link env p plans stp eff lit open_cond False g = Inr (n, plans', g')"
  shows "\<exists>news. plans' = plans @ news \<and> list_all (link_counted p stp) news"
  using new_link_counted[OF ns par flaw, of stp plans eff lit g] res
  by (simp add: drop_count_def all_added_def)















text \<open>
  And whatever the options, a plan that \<^verbatim>\<open>make_link\<close> adds for a step of the plan
  has an empty chain of unexpanded composite steps and the count of the plan:
  here the composite step of the plan is lost, and counted.
\<close>

lemma refinements_reuse_unexpanded_steps:
  "flaws_counted sample_composite_plan
   \<and> flaw_of sample_composite_plan (OpenConditionFlaw sample_open_cond)
   \<and> \<not> strip_static_preconditions sample_reuse_env
   \<and> (\<exists>p'. refinements sample_reuse_env sample_composite_plan []
              (OpenConditionFlaw sample_open_cond) \<lparr>rand_calls = 0, num_variables = 0\<rparr>
            = Inr ([p'], \<lparr>rand_calls = 0, num_variables = 0\<rparr>)
          \<and> unexpanded_steps p' = [] \<and> num_unexpanded_steps p' = 1
          \<and> \<not> unexpanded_steps_counted p')"
  by (simp add: sample_reuse_env_def literal_achievers_def literal_predicate_def
        reuse_step_def new_link_def make_link_def make_link_step_def link_bindings_def
        chain_remove_def sample_add_effect_def sample_open_cond_def Step_def
        sample_init_action_def sample_travel_def sample_goal_action_def sample_atom_def
        add_goal_def dummy_name_def
        refine_by_goal_def Let_def sample_composite_plan_def
        Plan_def link_plan_def link_threats_def step_threats_def Link_def
        effect_threats_def step_may_threaten_def effect_threatens_def
        flaws_counted_def unsafes_counted_def open_conds_counted_def
        unexpanded_steps_counted_def GOAL_ID_def)



end
